theory Spec2Isabelle
  imports Complex_Main
begin

section \<open>JavaScript values, errors and host objects\<close>

text \<open>
  The embedding follows \<^verbatim>\<open>src/lib/log4js.js\<close>. Strings are lists of
  \<^typ>\<open>char\<close>, each standing for one code unit below 256. Every \<^verbatim>\<open>throw\<close> of the
  JavaScript engine that the modelled code can reach is a \<open>TypeError\<close> (a property read
  or a method call on \<^verbatim>\<open>undefined\<close>, or a call of a value that is no function).
\<close>

datatype error = TypeError

subsection \<open>Level (lines 58-67 and 229-266)\<close>

record Level =
  level :: real
  levelStr :: string

text \<open>
  An argument of \<^verbatim>\<open>Level.toLevel\<close>, \<^verbatim>\<open>setLevel\<close>, \<^verbatim>\<open>getLogger\<close> or
  \<^verbatim>\<open>logLevelFilter\<close>: the code looks at it with \<^verbatim>\<open>=== null\<close> and
  \<^verbatim>\<open>typeof ... == "string"\<close> only, so the values are \<^verbatim>\<open>undefined\<close> (also a missing
  argument), \<^verbatim>\<open>null\<close>, a primitive string, a Level object and any other value.
\<close>

datatype jsval = JUndefined | JNull | JString string | JLevel Level | JOther

text \<open>\<^verbatim>\<open>Number.MIN_VALUE\<close> is the smallest positive double, \<^verbatim>\<open>Number.MAX_VALUE\<close> the largest.\<close>

definition Number_MIN_VALUE :: real where
  "Number_MIN_VALUE = 1 / 2 ^ 1074"

definition Number_MAX_VALUE :: real where
  "Number_MAX_VALUE = (2 ^ 53 - 1) * 2 ^ 971"

definition levels_ALL :: Level where
  "levels_ALL = \<lparr>level = Number_MIN_VALUE, levelStr = ''ALL''\<rparr>"

definition levels_TRACE :: Level where
  "levels_TRACE = \<lparr>level = 5000, levelStr = ''TRACE''\<rparr>"

definition levels_DEBUG :: Level where
  "levels_DEBUG = \<lparr>level = 10000, levelStr = ''DEBUG''\<rparr>"

definition levels_INFO :: Level where
  "levels_INFO = \<lparr>level = 20000, levelStr = ''INFO''\<rparr>"

definition levels_WARN :: Level where
  "levels_WARN = \<lparr>level = 30000, levelStr = ''WARN''\<rparr>"

definition levels_ERROR :: Level where
  "levels_ERROR = \<lparr>level = 40000, levelStr = ''ERROR''\<rparr>"

definition levels_FATAL :: Level where
  "levels_FATAL = \<lparr>level = 50000, levelStr = ''FATAL''\<rparr>"

definition levels_OFF :: Level where
  "levels_OFF = \<lparr>level = Number_MAX_VALUE, levelStr = ''OFF''\<rparr>"

text \<open>The entries of the object literal \<^verbatim>\<open>levels\<close>, in the order of the source.\<close>

definition levels_table :: "(string \<times> Level) list" where
  "levels_table =
     [(''ALL'', levels_ALL), (''TRACE'', levels_TRACE), (''DEBUG'', levels_DEBUG),
      (''INFO'', levels_INFO), (''WARN'', levels_WARN), (''ERROR'', levels_ERROR),
      (''FATAL'', levels_FATAL), (''OFF'', levels_OFF)]"

definition all_levels :: "Level list" where
  "all_levels = map snd levels_table"

text \<open>
  \<^verbatim>\<open>levels[s]\<close>. The only read of the table is in \<^verbatim>\<open>toLevel\<close>, with a key that
  \<^verbatim>\<open>toUpperCase\<close> returned; every property that the object inherits
  (\<^verbatim>\<open>constructor\<close>, \<^verbatim>\<open>toString\<close>, \<^verbatim>\<open>__proto__\<close>, ...) has a lower-case letter in its
  name, so such a key finds own properties only.
\<close>

definition levels :: "string \<Rightarrow> Level option" where
  "levels s = map_of levels_table s"

text \<open>
  \<^verbatim>\<open>String.prototype.toUpperCase\<close> on the letters a-z. Code units from 128 on are
  left as they are: the upper-case forms of those below 256 hold no letter A-Z other
  than the pair SS, which no level name contains, so the table lookup is not affected.
\<close>

definition upper_char :: "char \<Rightarrow> char" where
  "upper_char c =
     (case map_of (zip ''abcdefghijklmnopqrstuvwxyz'' ''ABCDEFGHIJKLMNOPQRSTUVWXYZ'') c of
        Some u \<Rightarrow> u
      | None \<Rightarrow> c)"

definition toUpperCase :: "string \<Rightarrow> string" where
  "toUpperCase s = map upper_char s"

text \<open>
  \<^verbatim>\<open>Level.toLevel(sArg, defaultLevel)\<close>. The default is \<open>None\<close> when the caller
  passes none (\<^verbatim>\<open>undefined\<close>), and so is the result then.
\<close>

definition toLevel :: "jsval \<Rightarrow> Level option \<Rightarrow> Level option" where
  "toLevel sArg defaultLevel =
     (case sArg of
        JNull \<Rightarrow> defaultLevel
      | JString str \<Rightarrow>
          (case levels (toUpperCase str) of
             Some l \<Rightarrow> Some l
           | None \<Rightarrow> defaultLevel)
      | _ \<Rightarrow> defaultLevel)"




definition Level_toString :: "Level \<Rightarrow> string" where
  "Level_toString this = levelStr this"

text \<open>
  \<^verbatim>\<open>this.level <= otherLevel.level\<close>: reading \<^verbatim>\<open>.level\<close> of \<^verbatim>\<open>undefined\<close>
  throws a TypeError.
\<close>

definition isLessThanOrEqualTo :: "Level \<Rightarrow> Level option \<Rightarrow> error + bool" where
  "isLessThanOrEqualTo this otherLevel =
     (case otherLevel of
        None \<Rightarrow> Inl TypeError
      | Some other \<Rightarrow> Inr (level this \<le> level other))"

definition isGreaterThanOrEqualTo :: "Level \<Rightarrow> Level option \<Rightarrow> error + bool" where
  "isGreaterThanOrEqualTo this otherLevel =
     (case otherLevel of
        None \<Rightarrow> Inl TypeError
      | Some other \<Rightarrow> Inr (level this \<ge> level other))"

subsection \<open>Date and LoggingEvent (lines 277-284)\<close>

text \<open>
  A \<^verbatim>\<open>Date\<close> of the host, as the values its getters return. The result of
  \<^verbatim>\<open>toLocaleTimeString()\<close> depends on the host's locale and is carried along.
\<close>

record Date =
  getDate :: nat
  getMonth :: nat
  getFullYear :: nat
  getHours :: nat
  getMinutes :: nat
  getSeconds :: nat
  getMilliseconds :: nat
  getTimezoneOffset :: int
  toLocaleTimeString :: string

record js_exception =
  exc_name :: string
  exc_message :: string
  exc_stack :: "string option"

text \<open>
  The fields of \<^verbatim>\<open>LoggingEvent\<close>. The message is a string here; \<open>logger\<close> names the
  Logger that built the event by the key it is cached under.
\<close>

record LoggingEvent =
  startTime :: Date
  categoryName :: string
  message :: string
  exception :: "js_exception option"
  event_level :: Level
  logger :: string

definition new_LoggingEvent ::
  "Date \<Rightarrow> string \<Rightarrow> Level \<Rightarrow> string \<Rightarrow> js_exception option \<Rightarrow> string \<Rightarrow> LoggingEvent" where
  "new_LoggingEvent now cat lvl msg exc lg =
     \<lparr>startTime = now, categoryName = cat, message = msg, exception = exc,
      event_level = lvl, logger = lg\<rparr>"

subsection \<open>Appenders and logLevelFilter (lines 360-367)\<close>

text \<open>
  An appender is a function of the event with an effect on the world outside (\<open>'w\<close>: a
  console, a file); it returns nothing, or throws.
\<close>

type_synonym 'w appender = "LoggingEvent \<Rightarrow> 'w \<Rightarrow> (error + unit) \<times> 'w"

definition logLevelFilter :: "jsval \<Rightarrow> 'w appender \<Rightarrow> 'w appender" where
  "logLevelFilter levelString appender =
     (let lvl = toLevel levelString None
      in (\<lambda>logEvent w.
            case isGreaterThanOrEqualTo (event_level logEvent) lvl of
              Inl e \<Rightarrow> (Inl e, w)
            | Inr True \<Rightarrow> appender logEvent w
            | Inr False \<Rightarrow> (Inr (), w)))"

subsection \<open>EventEmitter and Logger (lines 293-325)\<close>

text \<open>
  A function object that is registered as an appender is a value of \<open>'a\<close>; what
  calling it does is given by \<open>call :: 'a \<Rightarrow> 'w appender\<close>.

  \<^verbatim>\<open>Logger\<close> inherits from the host's \<^verbatim>\<open>events.EventEmitter\<close>, of which the code uses
  three methods on the one event type \<^verbatim>\<open>"log"\<close>. Their contract in Node:
  \<^verbatim>\<open>addListener\<close> puts the listener at the end of the type's list,
  \<^verbatim>\<open>removeAllListeners\<close> empties the list, and \<^verbatim>\<open>emit\<close> calls the listeners of the
  list one after the other, in the list's order, with the arguments given; a listener
  that throws ends \<^verbatim>\<open>emit\<close>, which lets the error through.
\<close>

definition DEFAULT_CATEGORY :: string where
  "DEFAULT_CATEGORY = ''[default]''"

definition ALL_CATEGORIES :: string where
  "ALL_CATEGORIES = ''[all]''"

record 'a Logger =
  category :: string
  logger_level :: "Level option"
  listeners :: "'a list"

text \<open>\<^verbatim>\<open>new Logger(name, level)\<close>: the empty string is falsy, as \<^verbatim>\<open>undefined\<close> is.\<close>

definition new_Logger :: "string \<Rightarrow> jsval \<Rightarrow> 'a Logger" where
  "new_Logger name lvl =
     \<lparr>category = (if name = [] then DEFAULT_CATEGORY else name),
      logger_level = toLevel lvl (Some levels_TRACE),
      listeners = []\<rparr>"

definition addListener :: "'a \<Rightarrow> 'a Logger \<Rightarrow> 'a Logger" where
  "addListener listener this = this\<lparr>listeners := listeners this @ [listener]\<rparr>"

definition removeAllListeners :: "'a Logger \<Rightarrow> 'a Logger" where
  "removeAllListeners this = this\<lparr>listeners := []\<rparr>"

text \<open>
  \<^verbatim>\<open>emit("log", loggingEvent)\<close>. Beside the outcome and the world it returns the calls
  it made, in their order: the function object called and the event passed.
\<close>

fun emit ::
  "('a \<Rightarrow> 'w appender) \<Rightarrow> 'a list \<Rightarrow> LoggingEvent \<Rightarrow> 'w
     \<Rightarrow> ('a \<times> LoggingEvent) list \<times> (error + unit) \<times> 'w" where
  "emit call [] ev w = ([], Inr (), w)"
| "emit call (l # ls) ev w =
     (case call l ev w of
        (Inl e, w') \<Rightarrow> ([(l, ev)], Inl e, w')
      | (Inr u, w') \<Rightarrow>
          (case emit call ls ev w' of (tr, r, w'') \<Rightarrow> ((l, ev) # tr, r, w'')))"

definition setLevel :: "jsval \<Rightarrow> 'a Logger \<Rightarrow> 'a Logger" where
  "setLevel lvl this = this\<lparr>logger_level := toLevel lvl (Some levels_TRACE)\<rparr>"

text \<open>
  What a call on a Logger gives back to the model: the LoggingEvents constructed, the
  appender calls made, the outcome and the world.
\<close>

type_synonym ('a, 'w) logged =
  "LoggingEvent list \<times> ('a \<times> LoggingEvent) list \<times> (error + unit) \<times> 'w"

text \<open>\<^verbatim>\<open>Logger.prototype.log\<close>; \<open>self\<close> is the reference to \<open>this\<close>, \<open>now\<close> is \<^verbatim>\<open>new Date()\<close>.\<close>

definition Logger_log ::
  "'a Logger \<Rightarrow> string \<Rightarrow> Level \<Rightarrow> string \<Rightarrow> js_exception option \<Rightarrow> Date
     \<Rightarrow> ('a \<Rightarrow> 'w appender) \<Rightarrow> 'w \<Rightarrow> ('a, 'w) logged" where
  "Logger_log this self logLevel msg exc now call w =
     (let loggingEvent = new_LoggingEvent now (category this) logLevel msg exc self
      in case emit call (listeners this) loggingEvent w of
           (tr, r, w') \<Rightarrow> ([loggingEvent], tr, r, w'))"

definition isLevelEnabled :: "'a Logger \<Rightarrow> Level option \<Rightarrow> error + bool" where
  "isLevelEnabled this otherLevel =
     (case logger_level this of
        None \<Rightarrow> Inl TypeError
      | Some l \<Rightarrow> isLessThanOrEqualTo l otherLevel)"

text \<open>The six methods that the loop of lines 312-325 installs.\<close>

datatype severity = Trace | Debug | Info | Warn | Error | Fatal

fun levelString :: "severity \<Rightarrow> string" where
  "levelString Trace = ''Trace''"
| "levelString Debug = ''Debug''"
| "levelString Info = ''Info''"
| "levelString Warn = ''Warn''"
| "levelString Error = ''Error''"
| "levelString Fatal = ''Fatal''"

definition severity_level :: "severity \<Rightarrow> Level option" where
  "severity_level m = toLevel (JString (levelString m)) None"

definition Logger_isEnabled :: "severity \<Rightarrow> 'a Logger \<Rightarrow> error + bool" where
  "Logger_isEnabled m this = isLevelEnabled this (severity_level m)"

definition Logger_method ::
  "severity \<Rightarrow> 'a Logger \<Rightarrow> string \<Rightarrow> string \<Rightarrow> js_exception option \<Rightarrow> Date
     \<Rightarrow> ('a \<Rightarrow> 'w appender) \<Rightarrow> 'w \<Rightarrow> ('a, 'w) logged" where
  "Logger_method m this self msg exc now call w =
     (case isLevelEnabled this (severity_level m) of
        Inl e \<Rightarrow> ([], [], Inl e, w)
      | Inr False \<Rightarrow> ([], [], Inr (), w)
      | Inr True \<Rightarrow>
          (case severity_level m of
             None \<Rightarrow> ([], [], Inl TypeError, w)
           | Some lvl \<Rightarrow> Logger_log this self lvl msg exc now call w))"

subsection \<open>Strings and numbers of the host\<close>

text \<open>\<^verbatim>\<open>ToString\<close> of a number that is a non-negative integer (below \<open>10^21\<close>).\<close>

fun Number_toString :: "nat \<Rightarrow> string" where
  "Number_toString n =
     (if n < 10 then [''0123456789'' ! n]
      else Number_toString (n div 10) @ [''0123456789'' ! (n mod 10)])"

declare Number_toString.simps [simp del]

definition is_digit :: "char \<Rightarrow> bool" where
  "is_digit c = (c \<in> set ''0123456789'')"

definition digit_value :: "char \<Rightarrow> nat" where
  "digit_value c = (of_char c :: nat) - 48"

text \<open>The number that a string of decimal digits stands for.\<close>

definition digits_value :: "string \<Rightarrow> int" where
  "digits_value ds = foldl (\<lambda>a c. 10 * a + int (digit_value c)) 0 ds"

text \<open>The white space that \<^verbatim>\<open>parseInt\<close> skips, among the code units below 256.\<close>

definition is_white_space :: "char \<Rightarrow> bool" where
  "is_white_space c =
     (c \<in> set [CHR 0x09, CHR 0x0A, CHR 0x0B, CHR 0x0C, CHR 0x0D, CHR 0x20, CHR 0xA0])"

text \<open>
  \<^verbatim>\<open>parseInt(s, 10)\<close>: \<open>None\<close> is \<^verbatim>\<open>NaN\<close>. The result is the exact integer (a
  double is exact up to \<open>2^53\<close>; \<open>-0\<close> is \<open>0\<close>).
\<close>

definition parseInt :: "string \<Rightarrow> int option" where
  "parseInt s =
     (let s1 = dropWhile is_white_space s;
          sign = (case s1 of c # _ \<Rightarrow> if c = CHR ''-'' then - 1 else (1::int) | [] \<Rightarrow> 1);
          s2 = (case s1 of c # r \<Rightarrow> if c = CHR ''-'' \<or> c = CHR ''+'' then r else s1 | [] \<Rightarrow> s1);
          ds = takeWhile is_digit s2
      in if ds = [] then None
         else Some (sign * digits_value ds))"

text \<open>\<^verbatim>\<open>s.substring(0, len)\<close>: a \<^verbatim>\<open>NaN\<close> or negative \<open>len\<close> counts as 0.\<close>

definition substring0 :: "string \<Rightarrow> int option \<Rightarrow> string" where
  "substring0 s len = (case len of None \<Rightarrow> [] | Some n \<Rightarrow> take (nat n) s)"

text \<open>\<^verbatim>\<open>s.split(".")\<close> and \<^verbatim>\<open>bits.join(".")\<close>.\<close>

fun split_dot :: "string \<Rightarrow> string list" where
  "split_dot [] = [[]]"
| "split_dot (c # cs) =
     (if c = CHR ''.'' then [] # split_dot cs
      else (case split_dot cs of b # bs \<Rightarrow> (c # b) # bs | [] \<Rightarrow> [[c]]))"

fun join_dot :: "string list \<Rightarrow> string" where
  "join_dot [] = []"
| "join_dot [b] = b"
| "join_dot (b # bs) = b @ ''.'' @ join_dot bs"

text \<open>
  \<^verbatim>\<open>bits.slice(start)\<close>, with \<open>start\<close> the number \<^verbatim>\<open>bits.length - precision\<close>: a
  \<^verbatim>\<open>NaN\<close> counts as 0, a negative start counts from the end.
\<close>

definition slice_from :: "'a list \<Rightarrow> int option \<Rightarrow> 'a list" where
  "slice_from bits start =
     (case start of
        None \<Rightarrow> bits
      | Some k \<Rightarrow>
          if k < 0 then drop (nat (max (int (length bits) + k) 0)) bits
          else drop (nat k) bits)"

subsection \<open>Date.prototype.toFormattedString (lines 541-596)\<close>

definition ISO8601_FORMAT :: string where
  "ISO8601_FORMAT = ''yyyy-MM-dd hh:mm:ss.SSS''"

definition DATETIME_FORMAT :: string where
  "DATETIME_FORMAT = ''dd MMM YYYY hh:mm:ss.SSS''"

definition ABSOLUTETIME_FORMAT :: string where
  "ABSOLUTETIME_FORMAT = ''hh:mm:ss.SSS''"

function padWithZeros :: "string \<Rightarrow> nat \<Rightarrow> string" where
  "padWithZeros numAsString width =
     (if length numAsString < width then padWithZeros (''0'' @ numAsString) width
      else numAsString)"
  by pat_completeness auto
termination
  by (relation "measure (\<lambda>(numAsString, width). width - length numAsString)") auto

declare padWithZeros.simps [simp del]

definition addZero :: "string \<Rightarrow> string" where
  "addZero vNumber = padWithZeros vNumber 2"

definition offset :: "Date \<Rightarrow> string" where
  "offset date =
     (let os = nat \<bar>getTimezoneOffset date\<bar>;
          h0 = Number_toString (os div 60);
          m0 = Number_toString (os mod 60);
          h = (if length h0 = 1 then ''0'' @ h0 else h0);
          m = (if length m0 = 1 then ''0'' @ m0 else m0)
      in if getTimezoneOffset date < 0 then ''+'' @ h @ m else ''-'' @ h @ m)"

text \<open>
  \<^verbatim>\<open>s.replace(/pat/g, rep)\<close> for a pattern that is a literal text: the occurrences
  are replaced from left to right and do not overlap. The replacements of the code are
  digits and a sign, none of which \<^verbatim>\<open>replace\<close> reads as a \<^verbatim>\<open>$\<close> pattern.
\<close>

function replace_all :: "string \<Rightarrow> string \<Rightarrow> string \<Rightarrow> string" where
  "replace_all pat rep s =
     (case s of
        [] \<Rightarrow> []
      | c # cs \<Rightarrow>
          if pat \<noteq> [] \<and> take (length pat) s = pat
          then rep @ replace_all pat rep (drop (length pat) s)
          else c # replace_all pat rep cs)"
  by pat_completeness auto
termination
  by (relation "measure (\<lambda>(pat, rep, s). length s)") auto

declare replace_all.simps [simp del]

text \<open>\<^verbatim>\<open>s.replace(/y{1,4}/g, rep)\<close>: a run of \<^verbatim>\<open>y\<close> is taken four at a time.\<close>

function replace_y :: "string \<Rightarrow> string \<Rightarrow> string" where
  "replace_y rep s =
     (case s of
        [] \<Rightarrow> []
      | c # cs \<Rightarrow>
          if c = CHR ''y''
          then rep @ replace_y rep (drop (min 3 (length (takeWhile (\<lambda>x. x = CHR ''y'') cs))) cs)
          else c # replace_y rep cs)"
  by pat_completeness auto
termination
  by (relation "measure (\<lambda>(rep, s). length s)") auto

declare replace_y.simps [simp del]

text \<open>\<^verbatim>\<open>s.indexOf(pat) > -1\<close>.\<close>

definition contains :: "string \<Rightarrow> string \<Rightarrow> bool" where
  "contains s pat = list_ex (\<lambda>i. take (length pat) (drop i s) = pat) [0..<Suc (length s)]"

definition toFormattedString :: "Date \<Rightarrow> string option \<Rightarrow> string" where
  "toFormattedString this fmt =
     (let format = (case fmt of None \<Rightarrow> ISO8601_FORMAT
                    | Some f \<Rightarrow> if f = [] then ISO8601_FORMAT else f);
          vDay = addZero (Number_toString (getDate this));
          vMonth = addZero (Number_toString (getMonth this + 1));
          vYearLong = addZero (Number_toString (getFullYear this));
          vYearShort = addZero (take 1 (drop 3 (Number_toString (getFullYear this))));
          vYear = (if contains format ''yyyy'' then vYearLong else vYearShort);
          vHour = addZero (Number_toString (getHours this));
          vMinute = addZero (Number_toString (getMinutes this));
          vSecond = addZero (Number_toString (getSeconds this));
          vMillisecond = padWithZeros (Number_toString (getMilliseconds this)) 3;
          vTimeZone = offset this
      in replace_all ''O'' vTimeZone
          (replace_all ''SSS'' vMillisecond
            (replace_all ''ss'' vSecond
              (replace_all ''mm'' vMinute
                (replace_all ''hh'' vHour
                  (replace_y vYear
                    (replace_all ''MM'' vMonth
                      (replace_all ''dd'' vDay format))))))))"

subsection \<open>The regular expression of patternLayout (line 408)\<close>

text \<open>
  A backtracking matcher for the constructs the expression uses: a character class, a
  sequence, an alternative (left first), a greedy \<^verbatim>\<open>?\<close>, a greedy \<^verbatim>\<open>+\<close> on a
  character class and a capturing group. \<open>matches r (s, caps)\<close> lists, in the order in
  which backtracking tries them, the ways \<open>r\<close> matches at the start of \<open>s\<close>: the rest of
  the input and the captures. A group that took no part in a match has no capture
  (\<^verbatim>\<open>undefined\<close>).
\<close>

datatype regex =
    Class "char \<Rightarrow> bool"
  | Seq regex regex
  | Alt regex regex
  | Opt regex
  | Plus "char \<Rightarrow> bool"
  | Group nat regex

type_synonym captures = "nat \<Rightarrow> string option"

fun matches :: "regex \<Rightarrow> string \<times> captures \<Rightarrow> (string \<times> captures) list" where
  "matches (Class P) (s, caps) =
     (case s of [] \<Rightarrow> [] | c # cs \<Rightarrow> if P c then [(cs, caps)] else [])"
| "matches (Seq r1 r2) st = concat (map (matches r2) (matches r1 st))"
| "matches (Alt r1 r2) st = matches r1 st @ matches r2 st"
| "matches (Opt r) st = matches r st @ [st]"
| "matches (Plus P) (s, caps) =
     map (\<lambda>n. (drop n s, caps)) (rev [1..<Suc (length (takeWhile P s))])"
| "matches (Group i r) (s, caps) =
     map (\<lambda>(s', caps'). (s', caps'(i \<mapsto> take (length s - length s') s))) (matches r (s, caps))"

definition Chr :: "char \<Rightarrow> regex" where
  "Chr c = Class (\<lambda>x. x = c)"

text \<open>
  \<^verbatim>\<open>/%(-?[0-9]+)?(\.?[0-9]+)?([cdmnpr%])(\{([^\}]+)\})?|([^%]+)/\<close>: the part of
  a directive after its \<^verbatim>\<open>%\<close> first, then the whole expression.
\<close>

definition directive_tail :: regex where
  "directive_tail =
     Seq (Opt (Group 1 (Seq (Opt (Chr CHR ''-'')) (Plus is_digit))))
       (Seq (Opt (Group 2 (Seq (Opt (Chr CHR ''.'')) (Plus is_digit))))
         (Seq (Group 3 (Class (\<lambda>c. c \<in> set ''cdmnpr%'')))
           (Opt (Group 4
             (Seq (Chr CHR ''{'')
               (Seq (Group 5 (Plus (\<lambda>c. c \<noteq> CHR ''}''))) (Chr CHR ''}'')))))))"

definition pattern_regex :: regex where
  "pattern_regex =
     Alt (Seq (Chr CHR ''%'') directive_tail) (Group 6 (Plus (\<lambda>c. c \<noteq> CHR ''%'')))"

text \<open>
  The result of \<^verbatim>\<open>regex.exec(s)\<close>: \<open>matched\<close> is \<^verbatim>\<open>result[0]\<close>, \<open>groups i\<close> is
  \<^verbatim>\<open>result[i]\<close>. The expression has no \<^verbatim>\<open>g\<close> flag, so every call searches from the
  start of its argument: the first position at which the expression matches, and
  there the first match that backtracking finds.
\<close>

record regex_result =
  index :: nat
  matched :: string
  groups :: captures

fun exec_from :: "regex \<Rightarrow> nat \<Rightarrow> string \<Rightarrow> regex_result option" where
  "exec_from r i s =
     (case matches r (s, Map.empty) of
        (s', caps) # _ \<Rightarrow>
          Some \<lparr>index = i, matched = take (length s - length s') s, groups = caps\<rparr>
      | [] \<Rightarrow> (case s of [] \<Rightarrow> None | _ # cs \<Rightarrow> exec_from r (Suc i) cs))"

declare exec_from.simps [simp del]

definition regex_exec :: "string \<Rightarrow> regex_result option" where
  "regex_exec s = exec_from pattern_regex 0 s"

text \<open>The numbers of the groups of an expression.\<close>

fun group_numbers :: "regex \<Rightarrow> nat set" where
  "group_numbers (Class P) = {}"
| "group_numbers (Seq r1 r2) = group_numbers r1 \<union> group_numbers r2"
| "group_numbers (Alt r1 r2) = group_numbers r1 \<union> group_numbers r2"
| "group_numbers (Opt r) = group_numbers r"
| "group_numbers (Plus P) = {}"
| "group_numbers (Group i r) = insert i (group_numbers r)"

subsection \<open>patternLayout (lines 406-515)\<close>

text \<open>
  A captured group is truthy when it took part in the match and is not empty; the tests
  \<^verbatim>\<open>if (specifier)\<close>, \<^verbatim>\<open>if (truncation)\<close>, \<^verbatim>\<open>if (padding)\<close> and \<^verbatim>\<open>if (text)\<close>
  are written out as these two cases.
\<close>

text \<open>The \<^verbatim>\<open>switch\<close> on the conversion character: the raw replacement.\<close>

definition conversion_c :: "string option \<Rightarrow> LoggingEvent \<Rightarrow> string" where
  "conversion_c specifier loggingEvent =
     (let loggerName = categoryName loggingEvent
      in case specifier of
           None \<Rightarrow> loggerName
         | Some sp \<Rightarrow>
             if sp = [] then loggerName
             else
               (let precision = parseInt sp;
                    loggerNameBits = split_dot (categoryName loggingEvent)
                in case precision of
                     None \<Rightarrow> join_dot (slice_from loggerNameBits None)
                   | Some p \<Rightarrow>
                       if p \<ge> int (length loggerNameBits) then loggerName
                       else join_dot
                         (slice_from loggerNameBits (Some (int (length loggerNameBits) - p)))))"

definition conversion_d :: "string option \<Rightarrow> LoggingEvent \<Rightarrow> string" where
  "conversion_d specifier loggingEvent =
     (let dateFormat =
        (case specifier of
           None \<Rightarrow> ISO8601_FORMAT
         | Some sp \<Rightarrow>
             if sp = [] then ISO8601_FORMAT
             else if sp = ''ISO8601'' then ISO8601_FORMAT
             else if sp = ''ABSOLUTE'' then ABSOLUTETIME_FORMAT
             else if sp = ''DATE'' then DATETIME_FORMAT
             else sp)
      in toFormattedString (startTime loggingEvent) (Some dateFormat))"

definition conversion ::
  "string option \<Rightarrow> string option \<Rightarrow> string \<Rightarrow> LoggingEvent \<Rightarrow> string" where
  "conversion conversionCharacter specifier matchedString loggingEvent =
     (if conversionCharacter = Some ''c'' then conversion_c specifier loggingEvent
      else if conversionCharacter = Some ''d'' then conversion_d specifier loggingEvent
      else if conversionCharacter = Some ''m'' then message loggingEvent
      else if conversionCharacter = Some ''n'' then [CHR 0x0A]
      else if conversionCharacter = Some ''p'' then Level_toString (event_level loggingEvent)
      else if conversionCharacter = Some ''r'' then toLocaleTimeString (startTime loggingEvent)
      else if conversionCharacter = Some ''%'' then ''%''
      else matchedString)"

text \<open>
  The two padding loops; \<open>len\<close> is the result of \<^verbatim>\<open>parseInt\<close>, and a comparison with
  \<^verbatim>\<open>NaN\<close> is false. Strings have no bound on their length here.
\<close>

function pad_right :: "string \<Rightarrow> int \<Rightarrow> string" where
  "pad_right replacement len =
     (if int (length replacement) < len then pad_right (replacement @ '' '') len
      else replacement)"
  by pat_completeness auto
termination
  by (relation "measure (\<lambda>(replacement, len). nat (len - int (length replacement)))") auto

declare pad_right.simps [simp del]

function pad_left :: "string \<Rightarrow> int \<Rightarrow> string" where
  "pad_left replacement len =
     (if int (length replacement) < len then pad_left ('' '' @ replacement) len
      else replacement)"
  by pat_completeness auto
termination
  by (relation "measure (\<lambda>(replacement, len). nat (len - int (length replacement)))") auto

declare pad_left.simps [simp del]

definition truncate_field :: "string \<Rightarrow> string option \<Rightarrow> string" where
  "truncate_field replacement truncation =
     (case truncation of
        None \<Rightarrow> replacement
      | Some tr \<Rightarrow>
          if tr = [] then replacement
          else substring0 replacement (parseInt (drop 1 tr)))"

definition pad_field :: "string \<Rightarrow> string option \<Rightarrow> string" where
  "pad_field replacement padding =
     (case padding of
        None \<Rightarrow> replacement
      | Some pd \<Rightarrow>
          if pd = [] then replacement
          else if take 1 pd = ''-''
          then (case parseInt (drop 1 pd) of
                  None \<Rightarrow> replacement
                | Some len \<Rightarrow> pad_right replacement len)
          else (case parseInt pd of
                  None \<Rightarrow> replacement
                | Some len \<Rightarrow> pad_left replacement len))"

text \<open>What one pass of the \<^verbatim>\<open>while\<close> loop appends to \<^verbatim>\<open>formattedString\<close>.\<close>

definition format_match :: "regex_result \<Rightarrow> LoggingEvent \<Rightarrow> string" where
  "format_match result loggingEvent =
     (let matchedString = matched result;
          padding = groups result 1;
          truncation = groups result 2;
          conversionCharacter = groups result 3;
          specifier = groups result 5;
          text = groups result 6
      in case text of
           Some t \<Rightarrow>
             if t \<noteq> [] then t
             else pad_field
               (truncate_field
                 (conversion conversionCharacter specifier matchedString loggingEvent)
                 truncation) padding
         | None \<Rightarrow>
             pad_field
               (truncate_field
                 (conversion conversionCharacter specifier matchedString loggingEvent)
                 truncation) padding)"

text \<open>Every match of the expression takes at least one character: the loop terminates.\<close>

lemma matches_length:
  "(s', c') \<in> set (matches r (s, c)) \<Longrightarrow> length s' \<le> length s"
proof (induction r arbitrary: s c s' c')
  case (Class P)
  then show ?case by (auto split: list.splits if_splits)
next
  case (Seq r1 r2)
  from Seq.prems obtain s1 c1 where m1: "(s1, c1) \<in> set (matches r1 (s, c))"
    and m2: "(s', c') \<in> set (matches r2 (s1, c1))"
    by auto
  from Seq.IH(1) [OF m1] Seq.IH(2) [OF m2] show ?case by simp
next
  case (Alt r1 r2)
  then show ?case by auto
next
  case (Opt r)
  then show ?case by auto
next
  case (Plus P)
  then show ?case by auto
next
  case (Group i r)
  then show ?case by auto
qed

lemma pattern_regex_progress:
  assumes "(s', c') \<in> set (matches pattern_regex (s, c))"
  shows "length s' < length s"
proof -
  from assms consider
    (directive) "(s', c') \<in> set (matches (Seq (Chr CHR ''%'') directive_tail) (s, c))"
    | (literal) "(s', c') \<in> set (matches (Group 6 (Plus (\<lambda>c. c \<noteq> CHR ''%''))) (s, c))"
    unfolding pattern_regex_def by auto
  then show ?thesis
  proof cases
    case directive
    then obtain s1 c1 where m1: "(s1, c1) \<in> set (matches (Chr CHR ''%'') (s, c))"
      and m2: "(s', c') \<in> set (matches directive_tail (s1, c1))"
      by auto
    from m1 have "length s1 < length s"
      by (auto simp: Chr_def split: list.splits if_splits)
    with matches_length [OF m2] show ?thesis by simp
  next
    case literal
    then obtain n where n: "1 \<le> n" "n \<le> length (takeWhile (\<lambda>c. c \<noteq> CHR ''%'') s)" "s' = drop n s"
      by auto
    from n(2) length_takeWhile_le [of "\<lambda>c. c \<noteq> CHR ''%''" s] have "n \<le> length s" by simp
    with n show ?thesis by simp
  qed
qed

lemma exec_from_progress:
  "exec_from pattern_regex i s = Some r \<Longrightarrow>
     i \<le> index r \<and> 0 < length (matched r) \<and> (index r - i) + length (matched r) \<le> length s"
proof (induction s arbitrary: i)
  case Nil
  show ?case
  proof (cases "matches pattern_regex ([], Map.empty)")
    case Nil
    with Nil.prems show ?thesis by (simp add: exec_from.simps)
  next
    case (Cons m ms)
    obtain s' caps where "m = (s', caps)" by (cases m)
    with Cons have "(s', caps) \<in> set (matches pattern_regex ([], Map.empty))" by simp
    then have "length s' < length ([] :: string)" by (rule pattern_regex_progress)
    then show ?thesis by simp
  qed
next
  case (Cons c cs)
  show ?case
  proof (cases "matches pattern_regex (c # cs, Map.empty)")
    case Nil
    with Cons.prems have e: "exec_from pattern_regex (Suc i) cs = Some r"
      by (simp add: exec_from.simps)
    from Cons.IH [OF e] show ?thesis by auto
  next
    case (Cons m ms)
    obtain s' caps where m: "m = (s', caps)" by (cases m)
    with Cons have "(s', caps) \<in> set (matches pattern_regex (c # cs, Map.empty))" by simp
    then have "length s' < length (c # cs)" by (rule pattern_regex_progress)
    moreover from Cons.prems Cons m
    have "r = \<lparr>index = i, matched = take (length (c # cs) - length s') (c # cs), groups = caps\<rparr>"
      by (simp add: exec_from.simps)
    ultimately show ?thesis by auto
  qed
qed

lemma regex_exec_progress:
  assumes "regex_exec s = Some r"
  shows "length (drop (index r + length (matched r)) s) < length s"
proof -
  from assms exec_from_progress [of 0 s r]
  have "0 < length (matched r)" "index r + length (matched r) \<le> length s"
    by (simp_all add: regex_exec_def)
  then show ?thesis unfolding length_drop by linarith
qed


text \<open>The \<^verbatim>\<open>while\<close> loop of lines 417-511, from a search string that is a string.\<close>

function format_loop :: "string \<Rightarrow> LoggingEvent \<Rightarrow> string \<Rightarrow> string" where
  "format_loop searchString loggingEvent formattedString =
     (case regex_exec searchString of
        None \<Rightarrow> formattedString
      | Some result \<Rightarrow>
          format_loop (drop (index result + length (matched result)) searchString) loggingEvent
            (formattedString @ format_match result loggingEvent))"
  by pat_completeness auto
termination
  by (relation "measure (\<lambda>(searchString, loggingEvent, formattedString). length searchString)")
     (auto dest: regex_exec_progress)

declare format_loop.simps [simp del]

text \<open>
  The function that \<^verbatim>\<open>patternLayout(pattern)\<close> returns, applied to an event. Its
  search string is \<^verbatim>\<open>this.pattern\<close>, not the variable \<^verbatim>\<open>pattern\<close> of the enclosing
  call, of which the returned function makes no use. \<open>this_pattern\<close> is the property
  \<^verbatim>\<open>pattern\<close> of the object the function is called on: \<open>Some s\<close> for a string \<open>s\<close>,
  \<open>None\<close> for \<^verbatim>\<open>undefined\<close>. The appenders call their layout as a plain function
  (\<^verbatim>\<open>layout(loggingEvent)\<close>), so the object is the global object, which has such a
  property only if the program has made a global variable of that name. On
  \<^verbatim>\<open>undefined\<close> the first \<^verbatim>\<open>regex.exec\<close> matches the text \<^verbatim>\<open>"undefined"\<close>, and
  \<^verbatim>\<open>searchString.substr\<close> at the end of the first pass throws a TypeError.
\<close>

definition patternLayout :: "jsval \<Rightarrow> string option \<Rightarrow> LoggingEvent \<Rightarrow> error + string" where
  "patternLayout pattern this_pattern loggingEvent =
     (case this_pattern of
        None \<Rightarrow>
          (case regex_exec ''undefined'' of
             None \<Rightarrow> Inr []
           | Some result \<Rightarrow> Inl TypeError)
      | Some searchString \<Rightarrow> Inr (format_loop searchString loggingEvent []))"

subsection \<open>The other layouts and consoleAppender (lines 336-341 and 378-399)\<close>

text \<open>
  A layout is a function of the event that returns the text. It is given here the
  property \<^verbatim>\<open>pattern\<close> of the object it is called on as well, which only the
  function of \<^verbatim>\<open>patternLayout\<close> reads.
\<close>

type_synonym layout = "string option \<Rightarrow> LoggingEvent \<Rightarrow> error + string"

definition basicLayout :: layout where
  "basicLayout this_pattern loggingEvent =
     (let timestampLevelAndCategory =
            ''['' @ toFormattedString (startTime loggingEvent) None @ ''] ''
            @ ''['' @ Level_toString (event_level loggingEvent) @ ''] ''
            @ categoryName loggingEvent @ '' - '';
          output = timestampLevelAndCategory @ message loggingEvent
      in case exception loggingEvent of
           None \<Rightarrow> Inr output
         | Some exc \<Rightarrow>
             Inr (output @ [CHR 0x0A] @ timestampLevelAndCategory
               @ (case exc_stack exc of
                    None \<Rightarrow> exc_name exc @ '': '' @ exc_message exc
                  | Some stack \<Rightarrow>
                      if stack = [] then exc_name exc @ '': '' @ exc_message exc
                      else stack)))"

definition messagePassThroughLayout :: layout where
  "messagePassThroughLayout this_pattern loggingEvent = Inr (message loggingEvent)"

text \<open>
  \<^verbatim>\<open>consoleAppender(layout)\<close>: the world is what \<^verbatim>\<open>standardOutput\<close> has printed.
  The appender calls \<^verbatim>\<open>layout(loggingEvent)\<close> as a plain function, so the layout runs
  on the global object, whose property \<^verbatim>\<open>pattern\<close> is \<open>global_pattern\<close>
  (\<^verbatim>\<open>undefined\<close> unless the program has made a global variable of that name).
\<close>

definition consoleAppender :: "layout option \<Rightarrow> string option \<Rightarrow> string list appender" where
  "consoleAppender layout global_pattern =
     (let layout' = (case layout of None \<Rightarrow> basicLayout | Some l \<Rightarrow> l)
      in (\<lambda>loggingEvent out.
            case layout' global_pattern loggingEvent of
              Inl e \<Rightarrow> (Inl e, out)
            | Inr line \<Rightarrow> (Inr (), out @ [line])))"

subsection \<open>The registry (lines 54-57 and 103-170)\<close>

text \<open>
  \<^verbatim>\<open>loggers\<close> and \<^verbatim>\<open>appenders\<close> are objects used as dictionaries: \<^verbatim>\<open>o[k]\<close> is the
  own property \<open>k\<close> of \<open>o\<close> if there is one and the property \<open>k\<close> of its prototype chain
  otherwise. \<^verbatim>\<open>loggers\<close> is always an object literal \<^verbatim>\<open>{}\<close>, with the prototype
  \<^verbatim>\<open>Object.prototype\<close>. \<^verbatim>\<open>appenders\<close> starts as \<^verbatim>\<open>{}\<close>; \<^verbatim>\<open>clearAppenders\<close> assigns
  it an array literal \<^verbatim>\<open>[]\<close>, which has the own property \<^verbatim>\<open>length\<close> and the
  prototype \<^verbatim>\<open>Array.prototype\<close>, itself an array with the prototype
  \<^verbatim>\<open>Object.prototype\<close>. The names below are the properties of the two prototypes
  (all of them functions); \<^verbatim>\<open>__proto__\<close> reads the prototype itself. For
  \<^verbatim>\<open>Object.prototype\<close> they are those of ECMAScript 5 and V8. For
  \<^verbatim>\<open>Array.prototype\<close> the first nineteen are those of ECMAScript 5, which every host
  has; the others are the methods that the later editions up to ECMAScript 2023 added,
  which a host of the code's time does not have yet: on such a host a read of one of
  them finds nothing, as for any other name.
\<close>

definition Object_prototype_names :: "string list" where
  "Object_prototype_names =
     [''constructor'', ''toString'', ''toLocaleString'', ''valueOf'', ''hasOwnProperty'',
      ''isPrototypeOf'', ''propertyIsEnumerable'', ''__defineGetter__'', ''__lookupGetter__'',
      ''__defineSetter__'', ''__lookupSetter__'']"

definition Array_prototype_names :: "string list" where
  "Array_prototype_names =
     [''concat'', ''join'', ''pop'', ''push'', ''reverse'', ''shift'', ''slice'', ''sort'',
      ''splice'', ''unshift'', ''indexOf'', ''lastIndexOf'', ''every'', ''some'', ''forEach'',
      ''map'', ''filter'', ''reduce'', ''reduceRight'',
      ''copyWithin'', ''entries'', ''fill'', ''find'', ''findIndex'', ''keys'', ''values'',
      ''includes'', ''flat'', ''flatMap'', ''at'', ''findLast'', ''findLastIndex'',
      ''toReversed'', ''toSorted'', ''toSpliced'', ''with'']"

text \<open>
  A property name is an array index when it is the decimal form, without leading
  zeros, of a number below \<open>2^32 - 1\<close>.
\<close>

definition array_index :: "string \<Rightarrow> nat option" where
  "array_index k =
     (if k \<noteq> [] \<and> list_all is_digit k \<and> (k = ''0'' \<or> take 1 k \<noteq> ''0'')
      then (if digits_value k < 4294967295 then Some (nat (digits_value k)) else None)
      else None)"

text \<open>
  What a read \<^verbatim>\<open>o[k]\<close> finds: an own property put there by the code, nothing, the
  number \<^verbatim>\<open>length\<close> of an array, an inherited function (also an appender that was
  pushed on \<^verbatim>\<open>Array.prototype\<close>), or one of the two prototypes. Only \<^verbatim>\<open>undefined\<close> and
  the number 0 are falsy. The code calls \<^verbatim>\<open>forEach\<close>, \<^verbatim>\<open>push\<close> and
  \<^verbatim>\<open>addListener\<close> on what it reads: a function, a number and \<^verbatim>\<open>Object.prototype\<close>
  have none of them (a TypeError), \<^verbatim>\<open>Array.prototype\<close> has the first two.
\<close>

datatype 'v property =
    Own 'v
  | Undefined
  | Number nat
  | Function
  | Object_prototype
  | Array_prototype

text \<open>
  The state: the own properties of the two objects, whether \<^verbatim>\<open>appenders\<close> is an
  array by now and its \<^verbatim>\<open>length\<close> then, and the elements that the code has pushed on
  \<^verbatim>\<open>Array.prototype\<close> (none in a fresh host). A Logger object is identified by the key
  of \<^verbatim>\<open>loggers\<close> it is stored under: the code stores a \<^verbatim>\<open>new Logger\<close> under a key that
  has no value yet, and never removes or replaces one.
\<close>

record 'a registry =
  loggers :: "string \<rightharpoonup> 'a Logger"
  appenders :: "string \<rightharpoonup> 'a list"
  appenders_is_Array :: bool
  appenders_length :: nat
  Array_prototype_elements :: "'a list"

definition empty_registry :: "'a registry" where
  "empty_registry =
     \<lparr>loggers = Map.empty, appenders = Map.empty, appenders_is_Array = False,
      appenders_length = 0, Array_prototype_elements = []\<rparr>"

definition loggers_get :: "'a registry \<Rightarrow> string \<Rightarrow> 'a Logger property" where
  "loggers_get reg k =
     (case loggers reg k of
        Some lg \<Rightarrow> Own lg
      | None \<Rightarrow>
          if k = ''__proto__'' then Object_prototype
          else if k \<in> set Object_prototype_names then Function
          else Undefined)"

definition appenders_get :: "'a registry \<Rightarrow> string \<Rightarrow> 'a list property" where
  "appenders_get reg k =
     (case appenders reg k of
        Some l \<Rightarrow> Own l
      | None \<Rightarrow>
          if appenders_is_Array reg then
            (if k = ''length'' then Number (appenders_length reg)
             else if k = ''__proto__'' then Array_prototype
             else if k \<in> set Array_prototype_names \<or> k \<in> set Object_prototype_names then Function
             else (case array_index k of
                     Some i \<Rightarrow> if i < length (Array_prototype_elements reg) then Function else Undefined
                   | None \<Rightarrow> Undefined))
          else
            (if k = ''__proto__'' then Object_prototype
             else if k \<in> set Object_prototype_names then Function
             else Undefined))"

text \<open>
  What \<^verbatim>\<open>getLogger\<close> returns: the Logger stored under a key, or the value that
  \<^verbatim>\<open>loggers\<close> inherits under that name from \<^verbatim>\<open>Object.prototype\<close>, which is no Logger.
\<close>

datatype logger_value = LoggerRef string | Inherited string

text \<open>
  Lines 114-119 and 120-125: \<^verbatim>\<open>if (appenders[key]) { appenders[key].forEach(...) }\<close>,
  where the function passed adds the appender as a listener of
  \<^verbatim>\<open>loggers[categoryName]\<close>, which line 113 has just stored.
\<close>

definition listen_all :: "string \<Rightarrow> 'a list \<Rightarrow> 'a registry \<Rightarrow> 'a registry" where
  "listen_all name appenderList reg =
     reg\<lparr>loggers := (loggers reg)
       (name := map_option (fold addListener appenderList) (loggers reg name))\<rparr>"

definition bind_pending ::
  "string \<Rightarrow> string \<Rightarrow> 'a registry \<Rightarrow> (error + unit) \<times> 'a registry" where
  "bind_pending name key reg =
     (case appenders_get reg key of
        Own appenderList \<Rightarrow> (Inr (), listen_all name appenderList reg)
      | Undefined \<Rightarrow> (Inr (), reg)
      | Number n \<Rightarrow> if n = 0 then (Inr (), reg) else (Inl TypeError, reg)
      | Function \<Rightarrow> (Inl TypeError, reg)
      | Object_prototype \<Rightarrow> (Inl TypeError, reg)
      | Array_prototype \<Rightarrow>
          (Inr (), listen_all name (Array_prototype_elements reg) reg))"

definition getLogger :: "jsval \<Rightarrow> 'a registry \<Rightarrow> (error + logger_value) \<times> 'a registry" where
  "getLogger name reg =
     (let c = (case name of JString str \<Rightarrow> str | _ \<Rightarrow> DEFAULT_CATEGORY)
      in case loggers_get reg c of
           Own lg \<Rightarrow> (Inr (LoggerRef c), reg)
         | Undefined \<Rightarrow>
             (let reg1 = reg\<lparr>loggers := (loggers reg)(c \<mapsto> new_Logger c JUndefined)\<rparr>
              in case bind_pending c c reg1 of
                   (Inl e, reg2) \<Rightarrow> (Inl e, reg2)
                 | (Inr u, reg2) \<Rightarrow>
                     (case bind_pending c ALL_CATEGORIES reg2 of
                        (Inl e, reg3) \<Rightarrow> (Inl e, reg3)
                      | (Inr u', reg3) \<Rightarrow> (Inr (LoggerRef c), reg3)))
         | _ \<Rightarrow> (Inr (Inherited c), reg))"

text \<open>
  The arguments of \<^verbatim>\<open>addAppender\<close> after the appender: none (or \<^verbatim>\<open>undefined\<close>), one
  category, or several (an array of categories, or more than one argument).
\<close>

datatype categories = Omitted | Single string | Several "string list"

fun category_list :: "categories \<Rightarrow> string list" where
  "category_list Omitted = [ALL_CATEGORIES]"
| "category_list (Single c) = [c]"
| "category_list (Several cs) = cs"

text \<open>Lines 151-159, after the appender has been pushed.\<close>

definition bind_existing :: "'a \<Rightarrow> string \<Rightarrow> 'a registry \<Rightarrow> (error + unit) \<times> 'a registry" where
  "bind_existing appender cat reg =
     (if cat = ALL_CATEGORIES
      then (Inr (), reg\<lparr>loggers := (\<lambda>k. map_option (addListener appender) (loggers reg k))\<rparr>)
      else (case loggers_get reg cat of
              Own lg \<Rightarrow> (Inr (), reg\<lparr>loggers := (loggers reg)(cat \<mapsto> addListener appender lg)\<rparr>)
            | Undefined \<Rightarrow> (Inr (), reg)
            | _ \<Rightarrow> (Inl TypeError, reg)))"

text \<open>
  The function that line 145 passes to \<^verbatim>\<open>forEach\<close>. An assignment
  \<^verbatim>\<open>appenders[category] = []\<close> to an array index of an array raises its \<^verbatim>\<open>length\<close>.
\<close>

definition add_category :: "'a \<Rightarrow> string \<Rightarrow> 'a registry \<Rightarrow> (error + unit) \<times> 'a registry" where
  "add_category appender cat reg =
     (case appenders_get reg cat of
        Own l \<Rightarrow>
          bind_existing appender cat
            (reg\<lparr>appenders := (appenders reg)(cat \<mapsto> l @ [appender])\<rparr>)
      | Undefined \<Rightarrow>
          bind_existing appender cat
            (reg\<lparr>appenders := (appenders reg)(cat \<mapsto> [appender]),
                 appenders_length :=
                   (case array_index cat of
                      Some i \<Rightarrow> if appenders_is_Array reg then max (appenders_length reg) (Suc i)
                                else appenders_length reg
                    | None \<Rightarrow> appenders_length reg)\<rparr>)
      | Number n \<Rightarrow> (Inl TypeError, reg)
      | Function \<Rightarrow> (Inl TypeError, reg)
      | Object_prototype \<Rightarrow> (Inl TypeError, reg)
      | Array_prototype \<Rightarrow>
          bind_existing appender cat
            (reg\<lparr>Array_prototype_elements := Array_prototype_elements reg @ [appender]\<rparr>))"

fun add_categories :: "'a \<Rightarrow> string list \<Rightarrow> 'a registry \<Rightarrow> (error + unit) \<times> 'a registry" where
  "add_categories appender [] reg = (Inr (), reg)"
| "add_categories appender (cat # rest) reg =
     (case add_category appender cat reg of
        (Inl e, reg') \<Rightarrow> (Inl e, reg')
      | (Inr u, reg') \<Rightarrow> add_categories appender rest reg')"

definition addAppender :: "'a \<Rightarrow> categories \<Rightarrow> 'a registry \<Rightarrow> (error + unit) \<times> 'a registry" where
  "addAppender appender args reg = add_categories appender (category_list args) reg"

definition clearAppenders :: "'a registry \<Rightarrow> 'a registry" where
  "clearAppenders reg =
     reg\<lparr>appenders := Map.empty, appenders_is_Array := True, appenders_length := 0,
         loggers := (\<lambda>k. map_option removeAllListeners (loggers reg k))\<rparr>"

text \<open>
  A client's calls, one after the other: the functions of the registry, and
  \<^verbatim>\<open>getLogger(c).setLevel(l)\<close> and \<^verbatim>\<open>getLogger(c).trace(msg, exc)\<close> (or another of
  the six methods) on the Logger that \<^verbatim>\<open>getLogger\<close> returns. A call that throws leaves
  the state as it is at the throw, and the client goes on. A value that is no Logger
  has no method \<^verbatim>\<open>setLevel\<close> or \<^verbatim>\<open>trace\<close>: calling it throws. An appender acts on the
  world only, not on the registry.
\<close>

datatype 'a client_call =
    CallGetLogger jsval
  | CallAddAppender 'a categories
  | CallClearAppenders
  | CallSetLevel jsval jsval
  | CallLog jsval severity string "js_exception option" Date

fun run_call ::
  "('a \<Rightarrow> 'w appender) \<Rightarrow> 'a client_call \<Rightarrow> 'a registry \<times> 'w
     \<Rightarrow> ('a \<times> LoggingEvent) list \<times> 'a registry \<times> 'w" where
  "run_call call (CallGetLogger c) (reg, w) = ([], snd (getLogger c reg), w)"
| "run_call call (CallAddAppender appender args) (reg, w) =
     ([], snd (addAppender appender args reg), w)"
| "run_call call CallClearAppenders (reg, w) = ([], clearAppenders reg, w)"
| "run_call call (CallSetLevel c lvl) (reg, w) =
     (case getLogger c reg of
        (Inr (LoggerRef k), reg') \<Rightarrow>
          ([], reg'\<lparr>loggers := (loggers reg')(k := map_option (setLevel lvl) (loggers reg' k))\<rparr>, w)
      | (_, reg') \<Rightarrow> ([], reg', w))"
| "run_call call (CallLog c m msg exc now) (reg, w) =
     (case getLogger c reg of
        (Inr (LoggerRef k), reg') \<Rightarrow>
          (case loggers reg' k of
             Some lg \<Rightarrow>
               (case Logger_method m lg k msg exc now call w of
                  (evs, calls, r, w') \<Rightarrow> (calls, reg', w'))
           | None \<Rightarrow> ([], reg', w))
      | (_, reg') \<Rightarrow> ([], reg', w))"

text \<open>The appender calls that a sequence of client calls makes, and the state after it.\<close>

fun run_calls ::
  "('a \<Rightarrow> 'w appender) \<Rightarrow> 'a client_call list \<Rightarrow> 'a registry \<times> 'w
     \<Rightarrow> ('a \<times> LoggingEvent) list \<times> 'a registry \<times> 'w" where
  "run_calls call [] (reg, w) = ([], reg, w)"
| "run_calls call (c # cs) (reg, w) =
     (case run_call call c (reg, w) of
        (tr, reg', w') \<Rightarrow>
          (case run_calls call cs (reg', w') of
             (tr', reg'', w'') \<Rightarrow> (tr @ tr', reg'', w'')))"

fun is_addAppender :: "'a client_call \<Rightarrow> bool" where
  "is_addAppender (CallAddAppender appender args) = True"
| "is_addAppender c = False"

text \<open>A date for the examples.\<close>

definition example_Date :: Date where
  "example_Date =
     \<lparr>getDate = 3, getMonth = 10, getFullYear = 2010, getHours = 9, getMinutes = 5,
      getSeconds = 7, getMilliseconds = 42, getTimezoneOffset = - 60,
      toLocaleTimeString = ''09:05:07''\<rparr>"

text \<open>
  The appenders pending under a key, and the keys on which a read of \<^verbatim>\<open>loggers\<close> or
  \<^verbatim>\<open>appenders\<close> finds own properties only: neither a name that the objects inherit
  nor \<^verbatim>\<open>length\<close> nor an array index.
\<close>

definition pending :: "'a registry \<Rightarrow> string \<Rightarrow> 'a list" where
  "pending reg k = (case appenders reg k of Some l \<Rightarrow> l | None \<Rightarrow> [])"

definition ordinary_key :: "string \<Rightarrow> bool" where
  "ordinary_key k =
     (k \<noteq> ''__proto__'' \<and> k \<noteq> ''length'' \<and> k \<notin> set Object_prototype_names
      \<and> k \<notin> set Array_prototype_names \<and> array_index k = None)"

text \<open>
  Every appender pending under the wildcard category is a listener of every Logger;
  the key under which \<^verbatim>\<open>getLogger\<close> looks its argument up; a client's call on
  ordinary keys.
\<close>

definition wildcard_bound :: "'a registry \<Rightarrow> bool" where
  "wildcard_bound reg =
     (\<forall>k lg a. loggers reg k = Some lg \<longrightarrow> a \<in> set (pending reg ALL_CATEGORIES) \<longrightarrow>
        a \<in> set (listeners lg))"

fun key_of :: "jsval \<Rightarrow> string" where
  "key_of (JString str) = str"
| "key_of x = DEFAULT_CATEGORY"

fun ordinary_call :: "'a client_call \<Rightarrow> bool" where
  "ordinary_call (CallGetLogger x) = ordinary_key (key_of x)"
| "ordinary_call (CallAddAppender appender args) = list_all ordinary_key (category_list args)"
| "ordinary_call CallClearAppenders = True"
| "ordinary_call (CallSetLevel x lvl) = ordinary_key (key_of x)"
| "ordinary_call (CallLog x m msg exc now) = ordinary_key (key_of x)"

text \<open>
  No appender is pending and no Logger has a listener: the state that
  \<^verbatim>\<open>clearAppenders\<close> leaves.
\<close>

definition no_bindings :: "'a registry \<Rightarrow> bool" where
  "no_bindings reg =
     (appenders reg = Map.empty \<and> (\<forall>k lg. loggers reg k = Some lg \<longrightarrow> listeners lg = []))"

text \<open>
  Examples: appender 0 is a level filter built from an unknown level name, every other
  appender records its number and the message; a Logger with the threshold INFO; a
  registry with one wildcard appender and one Logger; a client's calls.
\<close>

definition example_call :: "nat \<Rightarrow> (nat \<times> string) list appender" where
  "example_call i =
     (if i = 0 then logLevelFilter (JString ''bogus'') (\<lambda>ev w. (Inr (), w @ [(i, message ev)]))
      else (\<lambda>ev w. (Inr (), w @ [(i, message ev)])))"

definition example_Logger :: "nat list \<Rightarrow> nat Logger" where
  "example_Logger ls = \<lparr>category = ''db'', logger_level = Some levels_INFO, listeners = ls\<rparr>"

definition example_registry :: "nat registry" where
  "example_registry = snd (getLogger (JString ''db'') (snd (addAppender 1 Omitted empty_registry)))"

definition example_calls :: "nat client_call list" where
  "example_calls =
     [CallLog (JString ''db'') Warn ''ok'' None example_Date,
      CallSetLevel (JString ''web'') (JString ''debug''),
      CallLog (JString ''web'') Error ''down'' None example_Date,
      CallGetLogger JUndefined]"

definition example_event :: "string \<Rightarrow> LoggingEvent" where
  "example_event cat = new_LoggingEvent example_Date cat levels_INFO ''ok'' None cat"

section \<open>Properties\<close>



lemma levelStr_levels:
  "levelStr levels_ALL = ''ALL''" "levelStr levels_TRACE = ''TRACE''"
  "levelStr levels_DEBUG = ''DEBUG''" "levelStr levels_INFO = ''INFO''"
  "levelStr levels_WARN = ''WARN''" "levelStr levels_ERROR = ''ERROR''"
  "levelStr levels_FATAL = ''FATAL''" "levelStr levels_OFF = ''OFF''"
  by (simp_all add: levels_ALL_def levels_TRACE_def levels_DEBUG_def levels_INFO_def
      levels_WARN_def levels_ERROR_def levels_FATAL_def levels_OFF_def)

lemma level_levels:
  "level levels_ALL = Number_MIN_VALUE" "level levels_TRACE = 5000"
  "level levels_DEBUG = 10000" "level levels_INFO = 20000"
  "level levels_WARN = 30000" "level levels_ERROR = 40000"
  "level levels_FATAL = 50000" "level levels_OFF = Number_MAX_VALUE"
  by (simp_all add: levels_ALL_def levels_TRACE_def levels_DEBUG_def levels_INFO_def
      levels_WARN_def levels_ERROR_def levels_FATAL_def levels_OFF_def)

lemma levels_lookup:
  "levels ''ALL'' = Some levels_ALL" "levels ''TRACE'' = Some levels_TRACE"
  "levels ''DEBUG'' = Some levels_DEBUG" "levels ''INFO'' = Some levels_INFO"
  "levels ''WARN'' = Some levels_WARN" "levels ''ERROR'' = Some levels_ERROR"
  "levels ''FATAL'' = Some levels_FATAL" "levels ''OFF'' = Some levels_OFF"
  by (simp_all add: levels_def levels_table_def)



lemma levels_None_iff:
  "levels s = None \<longleftrightarrow> s \<notin> set (map levelStr all_levels)"
  by (simp add: levels_def levels_table_def all_levels_def levelStr_levels)




subsection \<open>Level operations\<close>

text \<open>
  \<^verbatim>\<open>toUpperCase\<close> and equality up to the case of the letters: the upper-case form of a
  string is equal to it up to case, and two strings that are equal up to case have the
  same upper-case form.
\<close>

lemma upper_letters:
  assumes "65 \<le> (of_char c :: nat)" and "(of_char c :: nat) \<le> 90"
  shows "c \<in> set ''ABCDEFGHIJKLMNOPQRSTUVWXYZ''"
proof -
  have "(of_char c :: nat) \<in> of_char ` set ''ABCDEFGHIJKLMNOPQRSTUVWXYZ''"
    using assms by simp arith
  then show ?thesis by (simp only: inj_image_mem_iff [OF inj_of_char])
qed











subsection \<open>setLevel with a Level object\<close>

text \<open>
  Claim C9. \<^verbatim>\<open>setLevel(L)\<close> with a Level object \<open>L\<close> (of the table or any other)
  leaves the Logger with the threshold TRACE, whatever the rank of \<open>L\<close>:
  \<^verbatim>\<open>toLevel\<close> returns its default for every argument that is an object.
\<close>

theorem setLevel_Level_object:
  "logger_level (setLevel (JLevel L) lg) = Some levels_TRACE \<and> toLevel (JLevel L) d = d"
  by (simp add: setLevel_def toLevel_def)

subsection \<open>logLevelFilter\<close>

text \<open>
  Claim C10. A filter built by \<^verbatim>\<open>logLevelFilter\<close> from an argument for which the
  lookup (without default) finds no Level throws a TypeError on every event, without
  calling the wrapped appender and without any effect; a string is such an argument
  exactly when its upper-case form is no level name. A filter built from a recognised
  name passes the event on to the wrapped appender iff the rank of the event's level is
  at least the threshold's, and does nothing otherwise.
\<close>

theorem logLevelFilter_threshold:
  "(toLevel arg None = None \<longrightarrow>
      logLevelFilter arg appender logEvent w = (Inl TypeError, w))
   \<and> (toLevel arg None = Some t \<longrightarrow>
      logLevelFilter arg appender logEvent w =
        (if level (event_level logEvent) \<ge> level t then appender logEvent w else (Inr (), w)))
   \<and> (toLevel (JString name) None = None \<longleftrightarrow>
        toUpperCase name \<notin> set (map levelStr all_levels))"
proof -
  have "toLevel (JString name) None = levels (toUpperCase name)"
    by (simp add: toLevel_def split: option.splits)
  then show ?thesis
    by (simp add: logLevelFilter_def isGreaterThanOrEqualTo_def levels_None_iff)
qed

theorem logLevelFilter_threshold_witness:
  "logLevelFilter (JString ''bogus'') (\<lambda>ev w. (Inr (), w @ [message ev]))
      (new_LoggingEvent example_Date ''db'' levels_FATAL ''ok'' None ''db'') []
     = (Inl TypeError, [])
   \<and> logLevelFilter (JString ''warn'') (\<lambda>ev w. (Inr (), w @ [message ev]))
      (new_LoggingEvent example_Date ''db'' levels_ERROR ''ok'' None ''db'') []
     = (Inr (), [''ok''])
   \<and> logLevelFilter (JString ''warn'') (\<lambda>ev w. (Inr (), w @ [message ev]))
      (new_LoggingEvent example_Date ''db'' levels_INFO ''ok'' None ''db'') []
     = (Inr (), [])"
proof -
  have l1: "toLevel (JString ''bogus'') None = None"
    by (simp add: toLevel_def toUpperCase_def upper_char_def levels_def levels_table_def)
  have l2: "toLevel (JString ''warn'') None = Some levels_WARN"
    by (simp add: toLevel_def toUpperCase_def upper_char_def levels_lookup)
  show ?thesis
    using logLevelFilter_threshold [of "JString ''bogus''" "\<lambda>ev w. (Inr (), w @ [message ev])"
        "new_LoggingEvent example_Date ''db'' levels_FATAL ''ok'' None ''db''" "[]" levels_WARN "''bogus''"]
      logLevelFilter_threshold [of "JString ''warn''" "\<lambda>ev w. (Inr (), w @ [message ev])"
        "new_LoggingEvent example_Date ''db'' levels_ERROR ''ok'' None ''db''" "[]" levels_WARN "''warn''"]
      logLevelFilter_threshold [of "JString ''warn''" "\<lambda>ev w. (Inr (), w @ [message ev])"
        "new_LoggingEvent example_Date ''db'' levels_INFO ''ok'' None ''db''" "[]" levels_WARN "''warn''"]
      l1 l2
    by (simp add: new_LoggingEvent_def level_levels)
qed

subsection \<open>The severity methods of a Logger\<close>

lemma severity_levels:
  "map severity_level [Trace, Debug, Info, Warn, Error, Fatal] =
     map Some [levels_TRACE, levels_DEBUG, levels_INFO, levels_WARN, levels_ERROR, levels_FATAL]"
  by (simp add: severity_level_def toLevel_def toUpperCase_def upper_char_def levels_lookup)

text \<open>
  \<^verbatim>\<open>emit\<close> calls the listeners in the order of the list, each in the world that the
  ones before it have left. If the listener at place \<open>i\<close> is the first that throws,
  the calls made are those of the first \<open>i + 1\<close> listeners, the outcome is its error
  and the world is the one it left at the throw; if none throws, every listener is
  called and the world is the one that the last has left.
\<close>

lemma emit_throws:
  "i < length ls \<Longrightarrow>
   (\<forall>j < i. fst (call (ls ! j) ev (fold (\<lambda>l v. snd (call l ev v)) (take j ls) w)) = Inr ()) \<Longrightarrow>
   fst (call (ls ! i) ev (fold (\<lambda>l v. snd (call l ev v)) (take i ls) w)) = Inl e \<Longrightarrow>
   emit call ls ev w =
     (map (\<lambda>l. (l, ev)) (take (Suc i) ls), Inl e,
      snd (call (ls ! i) ev (fold (\<lambda>l v. snd (call l ev v)) (take i ls) w)))"
proof (induction ls arbitrary: i w)
  case Nil
  then show ?case by simp
next
  case (Cons l ls)
  obtain r0 w0 where c: "call l ev w = (r0, w0)" by (cases "call l ev w")
  show ?case
  proof (cases i)
    case 0
    with Cons.prems(3) c show ?thesis by simp
  next
    case (Suc n)
    from Cons.prems(2) Suc have "fst (call ((l # ls) ! 0) ev (fold (\<lambda>l v. snd (call l ev v)) (take 0 (l # ls)) w)) = Inr ()"
      by blast
    with c have r0: "r0 = Inr ()" by simp
    from Cons.prems(1) Suc have n: "n < length ls" by simp
    have before: "\<forall>j < n. fst (call (ls ! j) ev (fold (\<lambda>l v. snd (call l ev v)) (take j ls) w0)) = Inr ()"
    proof (intro allI impI)
      fix j assume "j < n"
      then have "Suc j < i" using Suc by simp
      with Cons.prems(2) have
        "fst (call ((l # ls) ! Suc j) ev (fold (\<lambda>l v. snd (call l ev v)) (take (Suc j) (l # ls)) w)) = Inr ()"
        by blast
      with c show "fst (call (ls ! j) ev (fold (\<lambda>l v. snd (call l ev v)) (take j ls) w0)) = Inr ()"
        by simp
    qed
    from Cons.prems(3) Suc c
    have at: "fst (call (ls ! n) ev (fold (\<lambda>l v. snd (call l ev v)) (take n ls) w0)) = Inl e"
      by simp
    from Cons.IH [OF n before at] c r0 Suc show ?thesis by simp
  qed
qed

lemma emit_returns:
  "(\<forall>j < length ls. fst (call (ls ! j) ev (fold (\<lambda>l v. snd (call l ev v)) (take j ls) w)) = Inr ()) \<Longrightarrow>
   emit call ls ev w = (map (\<lambda>l. (l, ev)) ls, Inr (), fold (\<lambda>l v. snd (call l ev v)) ls w)"
proof (induction ls arbitrary: w)
  case Nil
  show ?case by simp
next
  case (Cons l ls)
  obtain r0 w0 where c: "call l ev w = (r0, w0)" by (cases "call l ev w")
  from Cons.prems have "fst (call ((l # ls) ! 0) ev (fold (\<lambda>l v. snd (call l ev v)) (take 0 (l # ls)) w)) = Inr ()"
    by blast
  with c have r0: "r0 = Inr ()" by simp
  have rest: "\<forall>j < length ls. fst (call (ls ! j) ev (fold (\<lambda>l v. snd (call l ev v)) (take j ls) w0)) = Inr ()"
  proof (intro allI impI)
    fix j assume "j < length ls"
    then have "Suc j < length (l # ls)" by simp
    with Cons.prems have
      "fst (call ((l # ls) ! Suc j) ev (fold (\<lambda>l v. snd (call l ev v)) (take (Suc j) (l # ls)) w)) = Inr ()"
      by blast
    with c show "fst (call (ls ! j) ev (fold (\<lambda>l v. snd (call l ev v)) (take j ls) w0)) = Inr ()"
      by simp
  qed
  from Cons.IH [OF rest] c r0 show ?case by simp
qed

text \<open>
  Claim C3, as amended. The six methods log at TRACE, DEBUG, INFO, WARN, ERROR and FATAL.
  For a Logger with threshold \<open>t\<close> and a method of level \<open>lvl\<close>: if the rank of \<open>t\<close>
  is not at most that of \<open>lvl\<close>, the call is a no-op: no LoggingEvent is constructed,
  no appender is called, the world is as before. Otherwise exactly one LoggingEvent is
  constructed and the bound appenders are called with that event, one after the other
  in binding order, each once and each in the world that the ones before it have left,
  up to and including the first one that throws. If the appender bound at place \<open>i\<close>
  is the first to throw (those before it return, it throws the error \<open>e\<close>), then the
  calls made are exactly those of the first \<open>i + 1\<close> bindings, the appenders bound
  after it are not called, the error \<open>e\<close> reaches the caller, and the world is the one
  that the throwing appender has left. If no bound appender throws, every bound
  appender is called exactly once, the call returns, and the world is the one that the
  last appender has left. With the threshold INFO, \<^verbatim>\<open>debug\<close> is such a no-op, and
  \<^verbatim>\<open>info\<close> and \<^verbatim>\<open>warn\<close> pass the gate.
\<close>

theorem Logger_method_gate:
  assumes "logger_level this = Some t" and "severity_level m = Some lvl"
  shows
    "map severity_level [Trace, Debug, Info, Warn, Error, Fatal] =
       map Some [levels_TRACE, levels_DEBUG, levels_INFO, levels_WARN, levels_ERROR, levels_FATAL]
     \<and> (\<not> level t \<le> level lvl \<longrightarrow>
          Logger_method m this self msg exc now call w = ([], [], Inr (), w))
     \<and> (level t \<le> level lvl \<longrightarrow>
          (\<forall>i < length (listeners this).
             (\<forall>j < i.
                fst (call (listeners this ! j) (new_LoggingEvent now (category this) lvl msg exc self)
                  (fold (\<lambda>l v. snd (call l (new_LoggingEvent now (category this) lvl msg exc self) v))
                     (take j (listeners this)) w)) = Inr ()) \<longrightarrow>
             fst (call (listeners this ! i) (new_LoggingEvent now (category this) lvl msg exc self)
               (fold (\<lambda>l v. snd (call l (new_LoggingEvent now (category this) lvl msg exc self) v))
                  (take i (listeners this)) w)) = Inl e \<longrightarrow>
             Logger_method m this self msg exc now call w =
               ([new_LoggingEvent now (category this) lvl msg exc self],
                map (\<lambda>l. (l, new_LoggingEvent now (category this) lvl msg exc self))
                  (take (Suc i) (listeners this)),
                Inl e,
                snd (call (listeners this ! i) (new_LoggingEvent now (category this) lvl msg exc self)
                  (fold (\<lambda>l v. snd (call l (new_LoggingEvent now (category this) lvl msg exc self) v))
                     (take i (listeners this)) w)))))
     \<and> (level t \<le> level lvl \<longrightarrow>
          (\<forall>j < length (listeners this).
             fst (call (listeners this ! j) (new_LoggingEvent now (category this) lvl msg exc self)
               (fold (\<lambda>l v. snd (call l (new_LoggingEvent now (category this) lvl msg exc self) v))
                  (take j (listeners this)) w)) = Inr ()) \<longrightarrow>
          Logger_method m this self msg exc now call w =
            ([new_LoggingEvent now (category this) lvl msg exc self],
             map (\<lambda>l. (l, new_LoggingEvent now (category this) lvl msg exc self)) (listeners this),
             Inr (),
             fold (\<lambda>l v. snd (call l (new_LoggingEvent now (category this) lvl msg exc self) v))
               (listeners this) w))
     \<and> (t = levels_INFO \<longrightarrow> m = Debug \<longrightarrow> \<not> level t \<le> level lvl)
     \<and> (t = levels_INFO \<longrightarrow> m = Info \<or> m = Warn \<longrightarrow> level t \<le> level lvl)"
proof -
  let ?ev = "new_LoggingEvent now (category this) lvl msg exc self"
  let ?ls = "listeners this"
  let ?world = "\<lambda>j. fold (\<lambda>l v. snd (call l ?ev v)) (take j ?ls) w"
  have gate: "isLevelEnabled this (severity_level m) = Inr (level t \<le> level lvl)"
    using assms by (simp add: isLevelEnabled_def isLessThanOrEqualTo_def)
  have off: "\<not> level t \<le> level lvl \<longrightarrow>
      Logger_method m this self msg exc now call w = ([], [], Inr (), w)"
    using gate by (simp add: Logger_method_def)
  have on: "level t \<le> level lvl \<Longrightarrow>
      Logger_method m this self msg exc now call w =
        (case emit call ?ls ?ev w of (tr, r, w') \<Rightarrow> ([?ev], tr, r, w'))"
    using gate assms by (simp add: Logger_method_def Logger_log_def Let_def)
  have throws: "level t \<le> level lvl \<longrightarrow>
          (\<forall>i < length ?ls.
             (\<forall>j < i. fst (call (?ls ! j) ?ev (?world j)) = Inr ()) \<longrightarrow>
             fst (call (?ls ! i) ?ev (?world i)) = Inl e \<longrightarrow>
             Logger_method m this self msg exc now call w =
               ([?ev], map (\<lambda>l. (l, ?ev)) (take (Suc i) ?ls), Inl e,
                snd (call (?ls ! i) ?ev (?world i))))"
  proof (intro impI allI)
    fix i
    assume le: "level t \<le> level lvl" and i: "i < length ?ls"
      and before: "\<forall>j < i. fst (call (?ls ! j) ?ev (?world j)) = Inr ()"
      and at: "fst (call (?ls ! i) ?ev (?world i)) = Inl e"
    from emit_throws [of i ?ls call ?ev w e, OF i before at] on [OF le]
    show "Logger_method m this self msg exc now call w =
               ([?ev], map (\<lambda>l. (l, ?ev)) (take (Suc i) ?ls), Inl e,
                snd (call (?ls ! i) ?ev (?world i)))"
      by simp
  qed
  have returns: "level t \<le> level lvl \<longrightarrow>
          (\<forall>j < length ?ls. fst (call (?ls ! j) ?ev (?world j)) = Inr ()) \<longrightarrow>
          Logger_method m this self msg exc now call w =
            ([?ev], map (\<lambda>l. (l, ?ev)) ?ls, Inr (), fold (\<lambda>l v. snd (call l ?ev v)) ?ls w)"
  proof (intro impI)
    assume le: "level t \<le> level lvl"
      and quiet: "\<forall>j < length ?ls. fst (call (?ls ! j) ?ev (?world j)) = Inr ()"
    from emit_returns [of ?ls call ?ev w, OF quiet] on [OF le]
    show "Logger_method m this self msg exc now call w =
            ([?ev], map (\<lambda>l. (l, ?ev)) ?ls, Inr (), fold (\<lambda>l v. snd (call l ?ev v)) ?ls w)"
      by simp
  qed
  have sl: "severity_level Debug = Some levels_DEBUG" "severity_level Info = Some levels_INFO"
    "severity_level Warn = Some levels_WARN"
    using severity_levels by simp_all
  have debug: "t = levels_INFO \<longrightarrow> m = Debug \<longrightarrow> \<not> level t \<le> level lvl"
    using assms(2) sl by (auto simp: level_levels)
  have info: "t = levels_INFO \<longrightarrow> m = Info \<or> m = Warn \<longrightarrow> level t \<le> level lvl"
    using assms(2) sl by (auto simp: level_levels)
  from severity_levels off throws returns debug info show ?thesis
    by (intro conjI)
qed

theorem Logger_method_gate_witness:
  "Logger_method Debug (example_Logger [1, 2]) ''db'' ''ok'' None example_Date example_call []
     = ([], [], Inr (), [])
   \<and> Logger_method Warn (example_Logger [1, 2]) ''db'' ''ok'' None example_Date example_call []
     = ([new_LoggingEvent example_Date ''db'' levels_WARN ''ok'' None ''db''],
        [(1, new_LoggingEvent example_Date ''db'' levels_WARN ''ok'' None ''db''),
         (2, new_LoggingEvent example_Date ''db'' levels_WARN ''ok'' None ''db'')],
        Inr (), [(1, ''ok''), (2, ''ok'')])
   \<and> Logger_method Info (example_Logger [1, 0, 2]) ''db'' ''ok'' None example_Date example_call []
     = ([new_LoggingEvent example_Date ''db'' levels_INFO ''ok'' None ''db''],
        [(1, new_LoggingEvent example_Date ''db'' levels_INFO ''ok'' None ''db''),
         (0, new_LoggingEvent example_Date ''db'' levels_INFO ''ok'' None ''db'')],
        Inl TypeError, [(1, ''ok'')])"
proof -
  have h1: "logger_level (example_Logger ls) = Some levels_INFO" for ls
    by (simp add: example_Logger_def)
  have h2: "severity_level Debug = Some levels_DEBUG" and h3: "severity_level Warn = Some levels_WARN"
    and h4: "severity_level Info = Some levels_INFO"
    using severity_levels by simp_all
  have lt: "\<not> level levels_INFO \<le> level levels_DEBUG" "level levels_INFO \<le> level levels_WARN"
    "level levels_INFO \<le> level levels_INFO"
    by (simp_all add: level_levels)
  have bogus: "toLevel (JString ''bogus'') None = None"
    by (simp add: toLevel_def toUpperCase_def upper_char_def levels_def levels_table_def)
  have c: "example_call i ev v = (if i = 0 then (Inl TypeError, v) else (Inr (), v @ [(i, message ev)]))"
    for i ev v
    by (simp add: example_call_def logLevelFilter_def bogus isGreaterThanOrEqualTo_def)
  from Logger_method_gate [OF h1 h2, of "[1, 2]" "''db''" "''ok''" None example_Date example_call "[]"] lt
  have a: "Logger_method Debug (example_Logger [1, 2]) ''db'' ''ok'' None example_Date example_call []
     = ([], [], Inr (), [])" by blast
  have b: "Logger_method Warn (example_Logger [1, 2]) ''db'' ''ok'' None example_Date example_call []
     = ([new_LoggingEvent example_Date ''db'' levels_WARN ''ok'' None ''db''],
        [(1, new_LoggingEvent example_Date ''db'' levels_WARN ''ok'' None ''db''),
         (2, new_LoggingEvent example_Date ''db'' levels_WARN ''ok'' None ''db'')],
        Inr (), [(1, ''ok''), (2, ''ok'')])"
    using Logger_method_gate [OF h1 h3, of "[1, 2]" "''db''" "''ok''" None example_Date example_call "[]"] lt
    by (simp add: example_Logger_def c new_LoggingEvent_def less_Suc_eq all_conj_distrib)
  have d: "Logger_method Info (example_Logger [1, 0, 2]) ''db'' ''ok'' None example_Date example_call []
     = ([new_LoggingEvent example_Date ''db'' levels_INFO ''ok'' None ''db''],
        [(1, new_LoggingEvent example_Date ''db'' levels_INFO ''ok'' None ''db''),
         (0, new_LoggingEvent example_Date ''db'' levels_INFO ''ok'' None ''db'')],
        Inl TypeError, [(1, ''ok'')])"
    using Logger_method_gate [OF h1 h4, of "[1, 0, 2]" "''db''" "''ok''" None example_Date
        example_call "[]" TypeError] lt
    by (simp add: example_Logger_def c new_LoggingEvent_def less_Suc_eq all_conj_distrib)
  from a b d show ?thesis by simp
qed

text \<open>
  The claim as stated (every bound appender is called exactly once) fails where an
  appender throws: of the two appenders bound here the first is a level filter built
  from an unknown level name (claim C10); \<^verbatim>\<open>info\<close> passes the gate, the filter throws,
  and the second appender is never called.
\<close>

theorem Logger_method_counterexample:
  "Logger_method Info (example_Logger [0, 1]) ''db'' ''ok'' None example_Date example_call []
     = ([new_LoggingEvent example_Date ''db'' levels_INFO ''ok'' None ''db''],
        [(0, new_LoggingEvent example_Date ''db'' levels_INFO ''ok'' None ''db'')],
        Inl TypeError, [])"
  by code_simp


subsection \<open>clearAppenders\<close>

lemma array_index_ALL: "array_index ALL_CATEGORIES = None"
  by (simp add: array_index_def ALL_CATEGORIES_def is_digit_def)

lemma appenders_get_ALL:
  "appenders_get reg ALL_CATEGORIES =
     (case appenders reg ALL_CATEGORIES of Some l \<Rightarrow> Own l | None \<Rightarrow> Undefined)"
  by (simp add: appenders_get_def array_index_ALL split: option.splits)
     (simp add: ALL_CATEGORIES_def Array_prototype_names_def Object_prototype_names_def)

lemma no_bindings_clearAppenders: "no_bindings (clearAppenders reg)"
  by (auto simp: no_bindings_def clearAppenders_def removeAllListeners_def)

lemma bind_pending_no_own:
  assumes "appenders reg key = None" and "key \<noteq> ''__proto__''"
  shows "snd (bind_pending name key reg) = reg"
  using assms by (auto simp: bind_pending_def appenders_get_def split: option.splits property.splits)

lemma getLogger_no_bindings:
  assumes "no_bindings reg"
  shows "no_bindings (snd (getLogger c reg))"
proof -
  define k where "k = (case c of JString str \<Rightarrow> str | _ \<Rightarrow> DEFAULT_CATEGORY)"
  show ?thesis
  proof (cases "loggers_get reg k")
    case Undefined
    then have k: "k \<noteq> ''__proto__''" and nl: "loggers reg k = None"
      by (auto simp: loggers_get_def split: option.splits if_splits)
    define reg1 where "reg1 = reg\<lparr>loggers := (loggers reg)(k \<mapsto> new_Logger k JUndefined)\<rparr>"
    from assms have a1: "appenders reg1 k = None" "appenders reg1 ALL_CATEGORIES = None"
      by (simp_all add: reg1_def no_bindings_def)
    have all: "ALL_CATEGORIES \<noteq> ''__proto__''" by (simp add: ALL_CATEGORIES_def)
    have b1: "snd (bind_pending k k reg1) = reg1"
      using a1(1) k by (rule bind_pending_no_own)
    have b2: "snd (bind_pending k ALL_CATEGORIES reg1) = reg1"
      using a1(2) all by (rule bind_pending_no_own)
    have "snd (getLogger c reg) = reg1"
      using Undefined b1 b2
      by (auto simp: getLogger_def k_def [symmetric] reg1_def [symmetric] Let_def
          split: prod.splits sum.splits)
    moreover from assms have "no_bindings reg1"
      by (auto simp: reg1_def no_bindings_def new_Logger_def)
    ultimately show ?thesis by simp
  qed (use assms in \<open>auto simp: getLogger_def k_def [symmetric]\<close>)
qed

lemma emit_Nil_calls: "Logger_method m lg k msg exc now call w = (evs, calls, r, w') \<Longrightarrow>
   listeners lg = [] \<Longrightarrow> calls = [] \<and> w' = w"
  by (auto simp: Logger_method_def Logger_log_def Let_def split: sum.splits bool.splits option.splits)

lemma run_call_no_bindings:
  assumes "\<not> is_addAppender c" and "no_bindings reg"
  shows "fst (run_call call c (reg, w)) = [] \<and> no_bindings (fst (snd (run_call call c (reg, w))))
     \<and> snd (snd (run_call call c (reg, w))) = w"
proof (cases c)
  case (CallGetLogger x)
  with assms getLogger_no_bindings [OF assms(2), of x] show ?thesis by simp
next
  case (CallAddAppender a args)
  with assms show ?thesis by simp
next
  case CallClearAppenders
  then show ?thesis by (simp add: no_bindings_clearAppenders)
next
  case (CallSetLevel x lvl)
  obtain r reg' where g: "getLogger x reg = (r, reg')" by (cases "getLogger x reg")
  with getLogger_no_bindings [OF assms(2), of x] have nb: "no_bindings reg'" by simp
  then have "\<And>k. no_bindings
      (reg'\<lparr>loggers := (loggers reg')(k := map_option (setLevel lvl) (loggers reg' k))\<rparr>)"
    by (auto simp: no_bindings_def setLevel_def split: if_splits)
  with nb g CallSetLevel show ?thesis
    by (auto split: sum.splits logger_value.splits)
next
  case (CallLog x m msg exc now)
  obtain r reg' where g: "getLogger x reg = (r, reg')" by (cases "getLogger x reg")
  with getLogger_no_bindings [OF assms(2), of x] have nb: "no_bindings reg'" by simp
  show ?thesis
  proof (cases r)
    case (Inl e)
    with g nb CallLog show ?thesis by simp
  next
    case (Inr v)
    show ?thesis
    proof (cases v)
      case (Inherited n)
      with g nb CallLog Inr show ?thesis by simp
    next
      case (LoggerRef k)
      show ?thesis
      proof (cases "loggers reg' k")
        case None
        with g nb CallLog Inr LoggerRef show ?thesis by simp
      next
        case (Some lg)
        with nb have l: "listeners lg = []" by (auto simp: no_bindings_def)
        obtain evs calls r' w' where
          lm: "Logger_method m lg k msg exc now call w = (evs, calls, r', w')"
          by (cases "Logger_method m lg k msg exc now call w") auto
        from emit_Nil_calls [OF lm l] g nb CallLog Inr LoggerRef Some lm
        show ?thesis by simp
      qed
    qed
  qed
qed

lemma run_calls_no_bindings:
  assumes "list_all (\<lambda>c. \<not> is_addAppender c) cs" and "no_bindings reg"
  shows "fst (run_calls call cs (reg, w)) = []"
  using assms
proof (induction cs arbitrary: reg w)
  case Nil
  show ?case by simp
next
  case (Cons c cs)
  obtain tr reg' w' where s: "run_call call c (reg, w) = (tr, reg', w')"
    by (cases "run_call call c (reg, w)") auto
  from Cons.prems have c: "\<not> is_addAppender c" and cs: "list_all (\<lambda>c. \<not> is_addAppender c) cs"
    by simp_all
  from run_call_no_bindings [OF c Cons.prems(2), of call w] s
  have tr: "tr = []" and nb: "no_bindings reg'" by simp_all
  from Cons.IH [OF cs nb, of w'] s tr show ?case
    by (simp split: prod.splits)
qed

text \<open>
  Claim C7. After \<^verbatim>\<open>clearAppenders\<close> no list of pending appenders is left, and every
  Logger is still in place under its key, with its category and threshold and with no
  listener. From then on, whatever the client calls (\<^verbatim>\<open>getLogger\<close> for old or new
  categories, \<^verbatim>\<open>setLevel\<close>, the logging methods, \<^verbatim>\<open>clearAppenders\<close> again), no appender
  is called as long as \<^verbatim>\<open>addAppender\<close> is not called.
\<close>

theorem clearAppenders_frame:
  "appenders (clearAppenders reg) = Map.empty
   \<and> loggers (clearAppenders reg) k = map_option (\<lambda>lg. lg\<lparr>listeners := []\<rparr>) (loggers reg k)
   \<and> (list_all (\<lambda>c. \<not> is_addAppender c) cs \<longrightarrow>
        fst (run_calls call cs (clearAppenders reg, w)) = [])"
proof -
  have "loggers (clearAppenders reg) k = map_option (\<lambda>lg. lg\<lparr>listeners := []\<rparr>) (loggers reg k)"
    by (cases "loggers reg k") (simp_all add: clearAppenders_def removeAllListeners_def)
  moreover have "appenders (clearAppenders reg) = Map.empty"
    by (simp add: clearAppenders_def)
  moreover have "list_all (\<lambda>c. \<not> is_addAppender c) cs \<longrightarrow>
        fst (run_calls call cs (clearAppenders reg, w)) = []"
    by (simp add: run_calls_no_bindings no_bindings_clearAppenders)
  ultimately show ?thesis by simp
qed

theorem clearAppenders_frame_witness:
  "fst (run_calls example_call example_calls (example_registry, []))
     = [(1, new_LoggingEvent example_Date ''db'' levels_WARN ''ok'' None ''db''),
        (1, new_LoggingEvent example_Date ''web'' levels_ERROR ''down'' None ''web'')]
   \<and> fst (run_calls example_call example_calls (clearAppenders example_registry, [])) = []
   \<and> appenders example_registry ALL_CATEGORIES = Some [1]
   \<and> appenders (clearAppenders example_registry) = Map.empty
   \<and> map_option listeners (loggers example_registry ''db'') = Some [1]
   \<and> loggers (clearAppenders example_registry) ''db''
       = Some \<lparr>category = ''db'', logger_level = Some levels_TRACE, listeners = []\<rparr>"
proof -
  have na: "list_all (\<lambda>c. \<not> is_addAppender c) example_calls"
    by (simp add: example_calls_def)
  have before: "fst (run_calls example_call example_calls (example_registry, []))
     = [(1, new_LoggingEvent example_Date ''db'' levels_WARN ''ok'' None ''db''),
        (1, new_LoggingEvent example_Date ''web'' levels_ERROR ''down'' None ''web'')]"
    by code_simp
  have state: "appenders example_registry ALL_CATEGORIES = Some [1]"
    "loggers example_registry ''db''
       = Some \<lparr>category = ''db'', logger_level = Some levels_TRACE, listeners = [1]\<rparr>"
    by code_simp+
  from clearAppenders_frame [of example_registry "''db''" example_calls example_call "[]"] na state before
  show ?thesis by simp
qed


subsection \<open>The pattern layout\<close>

text \<open>
  The definitions that a concrete template unfolds to when the loop is evaluated on it.
\<close>

lemmas eval_defs = format_loop.simps exec_from.simps regex_exec_def pattern_regex_def
  directive_tail_def Chr_def format_match_def is_digit_def conversion_def conversion_c_def
  Level_toString_def pad_field_def truncate_field_def parseInt_def is_white_space_def
  digit_value_def digits_value_def pad_right.simps pad_left.simps substring0_def slice_from_def

lemma regex_exec_undefined: "regex_exec ''undefined'' \<noteq> None"
  by code_simp

lemma patternLayout_undefined: "patternLayout pattern None loggingEvent = Inl TypeError"
  using regex_exec_undefined by (auto simp: patternLayout_def split: option.splits)

text \<open>
  The loop itself, run on the template of claim C1 as its search string, gives the
  text that the claim expects, for every event of that level, category and message.
\<close>

lemma format_loop_template:
  assumes "categoryName ev = ''db''" "message ev = ''ok''" "levelStr (event_level ev) = ''INFO''"
  shows "format_loop ''%-5p %c - %m%n'' ev [] = ''INFO  db - ok'' @ [CHR 0x0A]"
  using assms by (simp add: eval_defs)

text \<open>
  Claim C1 (a defect of the code). The function that \<^verbatim>\<open>patternLayout\<close> returns is no
  formatter over the template it was built from: it reads its search string from
  \<^verbatim>\<open>this.pattern\<close>. Built from \<^verbatim>\<open>"%-5p %c - %m%n"\<close> and called as the appenders
  call a layout (no \<^verbatim>\<open>pattern\<close> on the object it is called on) it throws a TypeError
  on the event of the claim, as it does for every template and every event, and a
  \<^verbatim>\<open>consoleAppender\<close> with this layout throws it and prints nothing; called on
  an object whose \<^verbatim>\<open>pattern\<close> is \<^verbatim>\<open>"%m"\<close> it returns the message alone. Its result
  never depends on the template.
\<close>

theorem patternLayout_reads_this_pattern:
  "patternLayout (JString ''%-5p %c - %m%n'') None (example_event ''db'') = Inl TypeError
   \<and> consoleAppender (Some (patternLayout (JString ''%-5p %c - %m%n''))) None
        (example_event ''db'') [] = (Inl TypeError, [])
   \<and> patternLayout (JString ''%-5p %c - %m%n'') (Some ''%m'') (example_event ''db'') = Inr ''ok''
   \<and> patternLayout pattern None loggingEvent = Inl TypeError
   \<and> patternLayout pattern this_pattern loggingEvent
       = patternLayout pattern' this_pattern loggingEvent"
proof -
  have "patternLayout (JString ''%-5p %c - %m%n'') (Some ''%m'') (example_event ''db'') = Inr ''ok''"
    by code_simp
  moreover have "patternLayout pattern this_pattern loggingEvent
       = patternLayout pattern' this_pattern loggingEvent"
    by (simp add: patternLayout_def)
  ultimately show ?thesis by (simp add: patternLayout_undefined consoleAppender_def)
qed

subsection \<open>The conversion of the category\<close>

text \<open>
  The \<^verbatim>\<open>switch\<close> branch for \<^verbatim>\<open>c\<close> does what claim C5 says of it: without an argument
  the full category; with the decimal form of a number \<open>n\<close> as its argument the last
  \<open>n\<close> of the segments between dots, and the full category when \<open>n\<close> is at least
  their number. The loop run on \<^verbatim>\<open>"%c{2}"\<close> as its search string gives
  \<^verbatim>\<open>"b.c"\<close> for the category \<^verbatim>\<open>"a.b.c"\<close> and \<^verbatim>\<open>"a"\<close> for \<^verbatim>\<open>"a"\<close>.
\<close>

lemma digit_cases: "k < 10 \<Longrightarrow> k \<in> {0, 1, 2, 3, 4, 5, 6, 7, 8, 9::nat}"
  by auto

lemma digit_char:
  assumes "k < 10"
  shows "is_digit (''0123456789'' ! k)" "digit_value (''0123456789'' ! k) = k"
    "\<not> is_white_space (''0123456789'' ! k)" "''0123456789'' ! k \<noteq> CHR ''-''"
    "''0123456789'' ! k \<noteq> CHR ''+''"
  using digit_cases [OF assms]
  by (auto simp: is_digit_def digit_value_def is_white_space_def)

lemma digits_value_snoc: "digits_value (ds @ [d]) = 10 * digits_value ds + int (digit_value d)"
  by (simp add: digits_value_def)

lemma Number_toString_digits:
  "Number_toString n \<noteq> [] \<and> list_all is_digit (Number_toString n)
     \<and> digits_value (Number_toString n) = int n"
proof (induction n rule: Number_toString.induct)
  case (1 n)
  show ?case
  proof (cases "n < 10")
    case True
    then show ?thesis
      by (subst (1 2 3) Number_toString.simps) (simp add: digit_char digits_value_def)
  next
    case False
    with "1.IH" have ih: "list_all is_digit (Number_toString (n div 10))"
      "digits_value (Number_toString (n div 10)) = int (n div 10)" by simp_all
    have m: "n mod 10 < 10" by simp
    have d: "10 * int (n div 10) + int (n mod 10) = int n"
    proof -
      have "int n = int (10 * (n div 10) + n mod 10)" by simp
      also have "\<dots> = 10 * int (n div 10) + int (n mod 10)" by (simp only: of_nat_add of_nat_mult of_nat_numeral)
      finally show ?thesis by simp
    qed
    from False ih d show ?thesis
      by (subst (1 2 3) Number_toString.simps)
         (simp add: digit_char [OF m] digits_value_snoc)
  qed
qed

lemma Number_toString_hd:
  "\<exists>c cs. Number_toString n = c # cs \<and> is_digit c"
  using Number_toString_digits [of n] by (cases "Number_toString n") auto

lemma is_digit_facts: "is_digit c \<Longrightarrow> \<not> is_white_space c \<and> c \<noteq> CHR ''-'' \<and> c \<noteq> CHR ''+''"
  by (auto simp: is_digit_def is_white_space_def)

lemma parseInt_Number_toString: "parseInt (Number_toString n) = Some (int n)"
proof -
  obtain c cs where s: "Number_toString n = c # cs" and c: "is_digit c"
    using Number_toString_hd by blast
  from Number_toString_digits [of n] have all: "list_all is_digit (Number_toString n)"
    and v: "digits_value (Number_toString n) = int n" by simp_all
  from all have tw: "takeWhile is_digit (Number_toString n) = Number_toString n"
    by (simp add: list_all_iff)
  from is_digit_facts [OF c] s tw v show ?thesis
    by (simp add: parseInt_def Let_def)
qed

lemma split_dot_nonempty: "split_dot s \<noteq> []"
  by (induction s) (auto split: list.splits)

lemma join_split_dot: "join_dot (split_dot s) = s"
proof (induction s)
  case Nil
  show ?case by simp
next
  case (Cons c cs)
  obtain b bs where sp: "split_dot cs = b # bs"
    using split_dot_nonempty [of cs] by (cases "split_dot cs") auto
  with Cons show ?case by (cases bs) auto
qed

lemma conversion_c_precision:
  "conversion_c None ev = categoryName ev
   \<and> conversion_c (Some (Number_toString n)) ev =
       (if n \<ge> length (split_dot (categoryName ev)) then categoryName ev
        else join_dot (drop (length (split_dot (categoryName ev)) - n) (split_dot (categoryName ev))))
   \<and> join_dot (split_dot (categoryName ev)) = categoryName ev"
  using Number_toString_hd [of n]
  by (auto simp: conversion_c_def parseInt_Number_toString Let_def slice_from_def join_split_dot
      nat_diff_distrib')

lemma format_loop_c2:
  "categoryName ev = ''a.b.c'' \<Longrightarrow> format_loop ''%c{2}'' ev [] = ''b.c''"
  "categoryName ev = ''a'' \<Longrightarrow> format_loop ''%c{2}'' ev [] = ''a''"
  by (simp_all add: eval_defs)

text \<open>
  Claim C5 (the defect of claim C1). A layout built by \<^verbatim>\<open>patternLayout("%c{2}")\<close> and
  called as the appenders call it throws a TypeError on an event of category
  \<^verbatim>\<open>"a.b.c"\<close> and on one of category \<^verbatim>\<open>"a"\<close>, where the claim expects \<^verbatim>\<open>"b.c"\<close> and
  \<^verbatim>\<open>"a"\<close>; called on an object whose \<^verbatim>\<open>pattern\<close> is another template, it formats
  by that one.
\<close>

theorem patternLayout_category_precision:
  "patternLayout (JString ''%c{2}'') None (example_event ''a.b.c'') = Inl TypeError
   \<and> patternLayout (JString ''%c{2}'') None (example_event ''a'') = Inl TypeError
   \<and> patternLayout (JString ''%c{2}'') (Some ''%c'') (example_event ''a.b.c'') = Inr ''a.b.c''"
proof -
  have "patternLayout (JString ''%c{2}'') (Some ''%c'') (example_event ''a.b.c'') = Inr ''a.b.c''"
    by code_simp
  then show ?thesis by (simp add: patternLayout_undefined)
qed

subsection \<open>Directives with an unknown conversion character\<close>

text \<open>
  The expression matches a directive only with one of the seven conversion characters,
  so the \<^verbatim>\<open>default\<close> branch of the \<^verbatim>\<open>switch\<close>, which would pass the matched text
  through, is never taken: every match is a run of text without \<^verbatim>\<open>%\<close>, or a
  directive whose conversion character is one of the seven.
\<close>

lemma matches_Seq:
  "(s', c') \<in> set (matches (Seq r1 r2) st) \<longleftrightarrow>
     (\<exists>s1 c1. (s1, c1) \<in> set (matches r1 st) \<and> (s', c') \<in> set (matches r2 (s1, c1)))"
  by auto

lemma matches_Class:
  "(s', c') \<in> set (matches (Class P) (s, c)) \<Longrightarrow> c' = c \<and> (\<exists>x. s = x # s' \<and> P x)"
  by (cases s) (auto split: if_splits)

lemma matches_Plus:
  "(s', c') \<in> set (matches (Plus P) (s, c)) \<Longrightarrow> c' = c"
  by auto

lemma matches_Group:
  "(s', c') \<in> set (matches (Group i r) (s, c)) \<Longrightarrow>
     \<exists>c0. (s', c0) \<in> set (matches r (s, c)) \<and> c' = c0(i \<mapsto> take (length s - length s') s)"
  by auto

lemma matches_Opt:
  "(s', c') \<in> set (matches (Opt r) st) \<Longrightarrow> (s', c') \<in> set (matches r st) \<or> (s', c') = st"
  by auto

lemma argument_keeps_group_3:
  assumes "(s', c') \<in> set (matches
     (Opt (Group 4 (Seq (Chr CHR ''{'') (Seq (Group 5 (Plus P)) (Chr CHR ''}''))))) (s, c))"
  shows "c' 3 = c 3"
proof -
  from matches_Opt [OF assms] show ?thesis
  proof
    assume "(s', c') = (s, c)"
    then show ?thesis by simp
  next
    assume "(s', c') \<in> set (matches
      (Group 4 (Seq (Chr CHR ''{'') (Seq (Group 5 (Plus P)) (Chr CHR ''}'')))) (s, c))"
    from matches_Group [OF this] obtain c4 where
      g: "(s', c4) \<in> set (matches (Seq (Chr CHR ''{'') (Seq (Group 5 (Plus P)) (Chr CHR ''}''))) (s, c))"
      and c': "c' = c4(4 \<mapsto> take (length s - length s') s)" by blast
    from g [unfolded matches_Seq] obtain s5 c5 s6 c6 where
      a: "(s5, c5) \<in> set (matches (Chr CHR ''{'') (s, c))"
      and b: "(s6, c6) \<in> set (matches (Group 5 (Plus P)) (s5, c5))"
      and d: "(s', c4) \<in> set (matches (Chr CHR ''}'') (s6, c6))"
      by blast
    from matches_Class [OF a [unfolded Chr_def]] have c5: "c5 = c" by simp
    from matches_Group [OF b] obtain c0 where
      "(s6, c0) \<in> set (matches (Plus P) (s5, c5))" and c6: "c6 = c0(5 \<mapsto> take (length s5 - length s6) s5)"
      by blast
    from matches_Plus [OF this(1)] c6 have "c6 3 = c5 3" by simp
    moreover from matches_Class [OF d [unfolded Chr_def]] have "c4 = c6" by simp
    ultimately show ?thesis using c' c5 by simp
  qed
qed

lemma directive_conversion_character:
  assumes "(s', c') \<in> set (matches directive_tail (s, c))"
  shows "\<exists>ch. ch \<in> set ''cdmnpr%'' \<and> c' 3 = Some [ch]"
proof -
  from assms [unfolded directive_tail_def matches_Seq] obtain s1 c1 s2 c2 s3 c3 where
    m3: "(s3, c3) \<in> set (matches (Group 3 (Class (\<lambda>c. c \<in> set ''cdmnpr%''))) (s2, c2))"
    and m4: "(s', c') \<in> set (matches
       (Opt (Group 4 (Seq (Chr CHR ''{'')
          (Seq (Group 5 (Plus (\<lambda>c. c \<noteq> CHR ''}''))) (Chr CHR ''}''))))) (s3, c3))"
    by blast
  from matches_Group [OF m3] obtain c0 where
    cl: "(s3, c0) \<in> set (matches (Class (\<lambda>c. c \<in> set ''cdmnpr%'')) (s2, c2))"
    and c3: "c3 = c0(3 \<mapsto> take (length s2 - length s3) s2)" by blast
  from matches_Class [OF cl] obtain x where x: "s2 = x # s3" "x \<in> set ''cdmnpr%''" by blast
  from c3 x have "c3 3 = Some [x]" by simp
  with argument_keeps_group_3 [OF m4] x(2) show ?thesis by auto
qed


lemma matches_other_groups:
  "(s', c') \<in> set (matches r (s, c)) \<Longrightarrow> i \<notin> group_numbers r \<Longrightarrow> c' i = c i"
proof (induction r arbitrary: s c s' c')
  case (Class P)
  then show ?case by (auto split: list.splits if_splits)
next
  case (Seq r1 r2)
  from Seq.prems(1) [unfolded matches_Seq] obtain s1 c1 where
    "(s1, c1) \<in> set (matches r1 (s, c))" "(s', c') \<in> set (matches r2 (s1, c1))" by blast
  with Seq.IH [of _ _ _ _] Seq.prems(2) show ?case by (metis UnCI group_numbers.simps(2))
next
  case (Alt r1 r2)
  then show ?case by auto
next
  case (Opt r)
  then show ?case by auto
next
  case (Plus P)
  then show ?case by auto
next
  case (Group j r)
  from matches_Group [OF Group.prems(1)] obtain c0 where
    "(s', c0) \<in> set (matches r (s, c))" "c' = c0(j \<mapsto> take (length s - length s') s)" by blast
  with Group.IH [of s' c0 s c] Group.prems(2) show ?case by auto
qed

lemma directive_tail_groups: "6 \<notin> group_numbers directive_tail"
  by (simp add: directive_tail_def Chr_def)

lemma pattern_regex_shape:
  assumes "(s', c') \<in> set (matches pattern_regex (s, Map.empty))"
  shows "(c' 6 = None \<and> (\<exists>ch. ch \<in> set ''cdmnpr%'' \<and> c' 3 = Some [ch]))
     \<or> (\<exists>t. c' 6 = Some t \<and> t \<noteq> [] \<and> CHR ''%'' \<notin> set t \<and> t = take (length s - length s') s)"
proof -
  from assms consider
    (directive) "(s', c') \<in> set (matches (Seq (Chr CHR ''%'') directive_tail) (s, Map.empty))"
    | (literal) "(s', c') \<in> set (matches (Group 6 (Plus (\<lambda>c. c \<noteq> CHR ''%''))) (s, Map.empty))"
    unfolding pattern_regex_def by auto
  then show ?thesis
  proof cases
    case directive
    from directive [unfolded matches_Seq] obtain s1 c1 where
      a: "(s1, c1) \<in> set (matches (Chr CHR ''%'') (s, Map.empty))"
      and b: "(s', c') \<in> set (matches directive_tail (s1, c1))" by blast
    from matches_Class [OF a [unfolded Chr_def]] have "c1 = Map.empty" by simp
    with matches_other_groups [OF b directive_tail_groups] have "c' 6 = None" by simp
    with directive_conversion_character [OF b] show ?thesis by blast
  next
    case literal
    then obtain n where n: "1 \<le> n" "n \<le> length (takeWhile (\<lambda>c. c \<noteq> CHR ''%'') s)"
      and s': "s' = drop n s" and c': "c' = Map.empty(6 \<mapsto> take (length s - length s') s)"
      by auto
    from n(2) length_takeWhile_le [of "\<lambda>c. c \<noteq> CHR ''%''" s] have le: "n \<le> length s" by simp
    with s' have len: "length s - length s' = n" by simp
    have "take n s = take n (takeWhile (\<lambda>c. c \<noteq> CHR ''%'') s @ dropWhile (\<lambda>c. c \<noteq> CHR ''%'') s)"
      by simp
    also have "\<dots> = take n (takeWhile (\<lambda>c. c \<noteq> CHR ''%'') s)"
      using n(2) by (simp del: takeWhile_dropWhile_id)
    finally have "set (take n s) \<subseteq> set (takeWhile (\<lambda>c. c \<noteq> CHR ''%'') s)"
      by (simp add: set_take_subset)
    then have "CHR ''%'' \<notin> set (take n s)"
      using set_takeWhileD [of "CHR ''%''" "\<lambda>c. c \<noteq> CHR ''%''" s] by blast
    moreover from n(1) le have "take n s \<noteq> []" by auto
    ultimately show ?thesis using c' len by simp
  qed
qed

lemma exec_from_shape:
  "exec_from pattern_regex i s = Some r \<Longrightarrow>
     (groups r 6 = None \<and> (\<exists>ch. ch \<in> set ''cdmnpr%'' \<and> groups r 3 = Some [ch]))
     \<or> (groups r 6 = Some (matched r) \<and> matched r \<noteq> [] \<and> CHR ''%'' \<notin> set (matched r))"
proof (induction s arbitrary: i)
  case Nil
  show ?case
  proof (cases "matches pattern_regex ([], Map.empty)")
    case Nil
    with Nil.prems show ?thesis by (simp add: exec_from.simps)
  next
    case (Cons m ms)
    obtain s' caps where "m = (s', caps)" by (cases m)
    with Cons have "(s', caps) \<in> set (matches pattern_regex ([], Map.empty))" by simp
    then have "length s' < length ([] :: string)" by (rule pattern_regex_progress)
    then show ?thesis by simp
  qed
next
  case (Cons c cs)
  show ?case
  proof (cases "matches pattern_regex (c # cs, Map.empty)")
    case Nil
    with Cons.prems have "exec_from pattern_regex (Suc i) cs = Some r"
      by (simp add: exec_from.simps)
    then show ?thesis by (rule Cons.IH)
  next
    case (Cons m ms)
    obtain s' caps where m: "m = (s', caps)" by (cases m)
    with Cons have mem: "(s', caps) \<in> set (matches pattern_regex (c # cs, Map.empty))" by simp
    from Cons.prems Cons m
    have r: "r = \<lparr>index = i, matched = take (length (c # cs) - length s') (c # cs), groups = caps\<rparr>"
      by (simp add: exec_from.simps)
    from pattern_regex_shape [OF mem] r show ?thesis by auto
  qed
qed

lemma regex_exec_shape:
  "regex_exec s = Some r \<Longrightarrow>
     (groups r 6 = None \<and> (\<exists>ch. ch \<in> set ''cdmnpr%'' \<and> groups r 3 = Some [ch]))
     \<or> (groups r 6 = Some (matched r) \<and> matched r \<noteq> [] \<and> CHR ''%'' \<notin> set (matched r))"
  unfolding regex_exec_def by (rule exec_from_shape)

lemma format_match_no_default:
  assumes "regex_exec s = Some r"
  shows "format_match r ev = matched r \<and> CHR ''%'' \<notin> set (matched r)
     \<or> (\<exists>ch. ch \<in> set ''cdmnpr%'' \<and> groups r 3 = Some [ch] \<and>
          format_match r ev =
            pad_field (truncate_field (conversion (Some [ch]) (groups r 5) (matched r) ev) (groups r 2))
              (groups r 1))"
proof -
  from regex_exec_shape [OF assms] show ?thesis
  proof
    assume "groups r 6 = None \<and> (\<exists>ch. ch \<in> set ''cdmnpr%'' \<and> groups r 3 = Some [ch])"
    then obtain ch where "groups r 6 = None" "ch \<in> set ''cdmnpr%''" "groups r 3 = Some [ch]"
      by blast
    then have "ch \<in> set ''cdmnpr%'' \<and> groups r 3 = Some [ch] \<and>
          format_match r ev =
            pad_field (truncate_field (conversion (Some [ch]) (groups r 5) (matched r) ev) (groups r 2))
              (groups r 1)"
      by (simp add: format_match_def Let_def)
    then show ?thesis by blast
  next
    assume "groups r 6 = Some (matched r) \<and> matched r \<noteq> [] \<and> CHR ''%'' \<notin> set (matched r)"
    then have "format_match r ev = matched r \<and> CHR ''%'' \<notin> set (matched r)"
      by (simp add: format_match_def Let_def)
    then show ?thesis by blast
  qed
qed


text \<open>
  Claim C6 (a defect of the code). On the search string \<^verbatim>\<open>"%x"\<close> the loop gives
  \<^verbatim>\<open>"x"\<close>: the expression does not match at the \<^verbatim>\<open>%\<close>, the search goes on behind it
  and the \<^verbatim>\<open>%\<close> is dropped, where the claim expects the directive's text with its
  \<^verbatim>\<open>%\<close>. And the layout built by \<^verbatim>\<open>patternLayout("%x")\<close> throws a TypeError when it
  is called as the appenders call it (the defect of claim C1), where the claim expects
  no error for any template.
\<close>

theorem unknown_conversion_character:
  "format_loop ''%x'' loggingEvent [] = ''x''
   \<and> patternLayout (JString ''%x'') (Some ''%x'') loggingEvent = Inr ''x''
   \<and> patternLayout (JString ''%x'') None loggingEvent = Inl TypeError"
proof -
  have "format_loop ''%x'' loggingEvent [] = ''x''"
    by (simp add: eval_defs)
  then show ?thesis by (simp add: patternLayout_undefined) (simp add: patternLayout_def)
qed

subsection \<open>The registry on ordinary keys\<close>

text \<open>
  On the keys that are no inherited property names the registry does what claims C2 and
  C4 say. \<^verbatim>\<open>getLogger\<close> returns the Logger stored under the key and leaves the state
  alone, or stores a new Logger whose listeners are the appenders pending under the key
  followed by those pending under the wildcard category, each in the order of addition;
  a second call returns the same Logger; an argument that is no string stands for the
  default category. \<^verbatim>\<open>addAppender\<close> without a category adds the appender to the
  pending wildcard list and, as a listener, to every Logger that exists. Over any
  sequence of calls on such keys, every appender pending under the wildcard category is
  a listener of every Logger.
\<close>

lemma ordinary_ALL_CATEGORIES: "ordinary_key ALL_CATEGORIES"
  by (simp add: ordinary_key_def array_index_ALL)
     (simp add: ALL_CATEGORIES_def Object_prototype_names_def Array_prototype_names_def)

lemma ordinary_DEFAULT_CATEGORY: "ordinary_key DEFAULT_CATEGORY"
  by (simp add: ordinary_key_def array_index_def DEFAULT_CATEGORY_def is_digit_def
      Object_prototype_names_def Array_prototype_names_def)

lemma ordinary_loggers_get:
  "ordinary_key k \<Longrightarrow>
     loggers_get reg k = (case loggers reg k of Some lg \<Rightarrow> Own lg | None \<Rightarrow> Undefined)"
  by (simp add: ordinary_key_def loggers_get_def split: option.splits)

lemma ordinary_appenders_get:
  "ordinary_key k \<Longrightarrow>
     appenders_get reg k = (case appenders reg k of Some l \<Rightarrow> Own l | None \<Rightarrow> Undefined)"
  by (simp add: ordinary_key_def appenders_get_def split: option.splits)

lemma fold_addListener: "fold addListener as lg = lg\<lparr>listeners := listeners lg @ as\<rparr>"
  by (induction as arbitrary: lg) (simp_all add: addListener_def)

lemma bind_pending_ordinary:
  "ordinary_key key \<Longrightarrow>
     bind_pending name key reg =
       (Inr (), reg\<lparr>loggers := (loggers reg)
          (name := map_option (\<lambda>lg. lg\<lparr>listeners := listeners lg @ pending reg key\<rparr>)
             (loggers reg name))\<rparr>)"
  by (cases "loggers reg name")
     (auto simp: bind_pending_def ordinary_appenders_get pending_def listen_all_def
        fold_addListener fun_upd_idem map_upd_triv split: option.splits)

lemma getLogger_cached:
  "loggers reg c = Some lg \<Longrightarrow> getLogger (JString c) reg = (Inr (LoggerRef c), reg)"
  by (simp add: getLogger_def loggers_get_def)

lemma getLogger_creates:
  assumes "ordinary_key c" and "loggers reg c = None"
  shows "getLogger (JString c) reg =
     (Inr (LoggerRef c),
      reg\<lparr>loggers := (loggers reg)
        (c \<mapsto> \<lparr>category = (if c = [] then DEFAULT_CATEGORY else c),
               logger_level = Some levels_TRACE,
               listeners = pending reg c @ pending reg ALL_CATEGORIES\<rparr>)\<rparr>)"
  using assms
  by (simp add: getLogger_def ordinary_loggers_get bind_pending_ordinary ordinary_ALL_CATEGORIES
      Let_def pending_def new_Logger_def toLevel_def)

lemma getLogger_idempotent:
  assumes "ordinary_key c"
  shows "fst (getLogger (JString c) reg) = Inr (LoggerRef c)
     \<and> getLogger (JString c) (snd (getLogger (JString c) reg))
         = (Inr (LoggerRef c), snd (getLogger (JString c) reg))"
proof (cases "loggers reg c")
  case None
  from getLogger_creates [OF assms None] show ?thesis
    by (simp add: getLogger_cached)
next
  case (Some lg)
  then show ?thesis by (simp add: getLogger_cached)
qed

lemma getLogger_not_a_string:
  "\<forall>s. x \<noteq> JString s \<Longrightarrow> getLogger x reg = getLogger (JString DEFAULT_CATEGORY) reg"
  by (cases x) (simp_all add: getLogger_def)

lemma getLogger_other_key:
  "ordinary_key c \<Longrightarrow> k \<noteq> c \<Longrightarrow> loggers (snd (getLogger (JString c) reg)) k = loggers reg k"
  by (cases "loggers reg c") (simp_all add: getLogger_cached getLogger_creates)

lemma addAppender_wildcard:
  "addAppender a Omitted reg =
     (Inr (), reg\<lparr>appenders := (appenders reg)(ALL_CATEGORIES \<mapsto> pending reg ALL_CATEGORIES @ [a]),
                  loggers := (\<lambda>k. map_option (\<lambda>lg. lg\<lparr>listeners := listeners lg @ [a]\<rparr>) (loggers reg k))\<rparr>)"
  by (cases "appenders reg ALL_CATEGORIES")
     (simp_all add: addAppender_def add_category_def ordinary_appenders_get ordinary_ALL_CATEGORIES
        bind_existing_def pending_def array_index_ALL addListener_def [abs_def])

lemma pending_appenders_update [simp]:
  "pending (reg\<lparr>appenders := (appenders reg)(c \<mapsto> l)\<rparr>) k = (if k = c then l else pending reg k)"
  by (simp add: pending_def)

lemma pending_loggers_update [simp]: "pending (reg\<lparr>loggers := f\<rparr>) k = pending reg k"
  by (simp add: pending_def)

lemma getLogger_key_of: "getLogger x reg = getLogger (JString (key_of x)) reg"
  by (cases x) (simp_all add: getLogger_def)

lemma getLogger_ordinary_result:
  "ordinary_key (key_of x) \<Longrightarrow> fst (getLogger x reg) = Inr (LoggerRef (key_of x))"
  using getLogger_idempotent [of "key_of x" reg] getLogger_key_of [of x reg] by simp

lemma getLogger_wildcard_bound:
  assumes "ordinary_key (key_of x)" and "wildcard_bound reg"
  shows "wildcard_bound (snd (getLogger x reg))"
proof (cases "loggers reg (key_of x)")
  case None
  from getLogger_creates [OF assms(1) None] assms(2) show ?thesis
    unfolding getLogger_key_of [of x reg]
    by (auto simp: wildcard_bound_def split: if_splits)
next
  case (Some lg)
  with assms(2) show ?thesis
    unfolding getLogger_key_of [of x reg] by (simp add: getLogger_cached)
qed

lemma add_category_ordinary:
  assumes "ordinary_key c"
  shows "add_category a c reg =
     (Inr (),
      reg\<lparr>appenders := (appenders reg)(c \<mapsto> pending reg c @ [a]),
          loggers :=
            (if c = ALL_CATEGORIES
             then (\<lambda>k. map_option (\<lambda>lg. lg\<lparr>listeners := listeners lg @ [a]\<rparr>) (loggers reg k))
             else (loggers reg)
               (c := map_option (\<lambda>lg. lg\<lparr>listeners := listeners lg @ [a]\<rparr>) (loggers reg c)))\<rparr>)"
proof -
  from assms have ai: "array_index c = None" by (simp add: ordinary_key_def)
  have lg: "\<And>r. loggers_get r c = (case loggers r c of Some lg \<Rightarrow> Own lg | None \<Rightarrow> Undefined)"
    using assms by (rule ordinary_loggers_get)
  show ?thesis
    by (cases "appenders reg c"; cases "loggers reg c")
       (simp_all add: add_category_def ordinary_appenders_get [OF assms] bind_existing_def lg
          pending_def ai addListener_def [abs_def] fun_upd_idem)
qed

lemma add_category_wildcard_bound:
  assumes "ordinary_key c" and "wildcard_bound reg"
  shows "fst (add_category a c reg) = Inr () \<and> wildcard_bound (snd (add_category a c reg))"
  using assms(2) unfolding add_category_ordinary [OF assms(1)]
  by (auto simp: wildcard_bound_def split: if_splits)

lemma add_categories_wildcard_bound:
  "list_all ordinary_key cs \<Longrightarrow> wildcard_bound reg \<Longrightarrow>
     wildcard_bound (snd (add_categories a cs reg))"
proof (induction cs arbitrary: reg)
  case Nil
  then show ?case by simp
next
  case (Cons c cs)
  from Cons.prems have c: "ordinary_key c" and cs: "list_all ordinary_key cs" by simp_all
  obtain r reg' where s: "add_category a c reg = (r, reg')" by (cases "add_category a c reg")
  with add_category_wildcard_bound [OF c Cons.prems(2), of a] have "r = Inr ()" "wildcard_bound reg'"
    by simp_all
  with Cons.IH [OF cs this(2)] s show ?case by simp
qed

lemma wildcard_bound_clearAppenders: "wildcard_bound (clearAppenders reg)"
  by (simp add: wildcard_bound_def clearAppenders_def pending_def)

lemma wildcard_bound_setLevel:
  "wildcard_bound reg \<Longrightarrow>
     wildcard_bound (reg\<lparr>loggers := (loggers reg)(k := map_option (setLevel lvl) (loggers reg k))\<rparr>)"
  by (auto simp: wildcard_bound_def setLevel_def split: if_splits)

lemma run_call_wildcard_bound:
  assumes "ordinary_call c" and "wildcard_bound reg"
  shows "wildcard_bound (fst (snd (run_call call c (reg, w))))"
proof (cases c)
  case (CallGetLogger x)
  with assms getLogger_wildcard_bound [of x reg] show ?thesis by simp
next
  case (CallAddAppender a args)
  with assms add_categories_wildcard_bound [of "category_list args" reg a] show ?thesis
    by (simp add: addAppender_def)
next
  case CallClearAppenders
  then show ?thesis by (simp add: wildcard_bound_clearAppenders)
next
  case (CallSetLevel x lvl)
  with assms have o: "ordinary_key (key_of x)" by simp
  obtain r reg' where g: "getLogger x reg = (r, reg')" by (cases "getLogger x reg")
  with getLogger_wildcard_bound [OF o assms(2)] have "wildcard_bound reg'" by simp
  with g CallSetLevel wildcard_bound_setLevel [of reg'] show ?thesis
    by (auto split: sum.splits logger_value.splits)
next
  case (CallLog x m msg exc now)
  with assms have o: "ordinary_key (key_of x)" by simp
  obtain r reg' where g: "getLogger x reg = (r, reg')" by (cases "getLogger x reg")
  with getLogger_wildcard_bound [OF o assms(2)] have "wildcard_bound reg'" by simp
  with g CallLog show ?thesis
    by (auto split: sum.splits logger_value.splits option.splits prod.splits)
qed

lemma run_calls_wildcard_bound:
  "list_all ordinary_call cs \<Longrightarrow> wildcard_bound reg \<Longrightarrow>
     wildcard_bound (fst (snd (run_calls call cs (reg, w))))"
proof (induction cs arbitrary: reg w)
  case Nil
  then show ?case by simp
next
  case (Cons c cs)
  obtain tr reg' w' where s: "run_call call c (reg, w) = (tr, reg', w')"
    by (cases "run_call call c (reg, w)") auto
  from Cons.prems have c: "ordinary_call c" and cs: "list_all ordinary_call cs" by simp_all
  from run_call_wildcard_bound [OF c Cons.prems(2), of call w] s have "wildcard_bound reg'" by simp
  from Cons.IH [OF cs this, of w'] s show ?case
    by (cases "run_calls call cs (reg', w')") auto
qed

lemma wildcard_bound_empty: "wildcard_bound empty_registry"
  by (simp add: wildcard_bound_def empty_registry_def)


subsection \<open>The registry on inherited property names\<close>

text \<open>
  Claim C2 (a defect of the code). \<^verbatim>\<open>clearAppenders\<close> assigns \<^verbatim>\<open>appenders\<close> an array
  (line 164) where line 57 had an object. After it, \<^verbatim>\<open>appenders["push"]\<close> is the
  method that arrays inherit: once a wildcard appender has been added,
  \<^verbatim>\<open>getLogger("push")\<close> stores the new Logger (line 113), takes the inherited function
  for the list pending under \<^verbatim>\<open>"push"\<close> and throws a TypeError at its \<^verbatim>\<open>forEach\<close>
  (line 116), before the wildcard appenders are bound: the Logger exists and has no
  listener, while the appender is pending under the wildcard category.
\<close>

theorem getLogger_after_clearAppenders:
  "(let reg1 = clearAppenders (empty_registry :: nat registry);
        (r2, reg2) = addAppender 1 Omitted reg1;
        (r3, reg3) = getLogger (JString ''push'') reg2
    in r2 = Inr () \<and> r3 = Inl TypeError \<and> appenders reg3 ALL_CATEGORIES = Some [1]
       \<and> map_option listeners (loggers reg3 ''push'') = Some [])"
  by code_simp


text \<open>
  Claim C4 (a defect of the code). \<^verbatim>\<open>loggers["constructor"]\<close> is the function that every
  object inherits, so line 111 takes the Logger for present: \<^verbatim>\<open>getLogger("constructor")\<close>
  creates no Logger and returns that function, which is no Logger. And after
  \<^verbatim>\<open>clearAppenders\<close> the first \<^verbatim>\<open>getLogger("push")\<close> throws a TypeError (the defect of
  claim C2) where the second returns the Logger that the first has stored.
\<close>

theorem getLogger_inherited_name:
  "getLogger (JString ''constructor'') (empty_registry :: nat registry)
     = (Inr (Inherited ''constructor''), empty_registry)
   \<and> (let reg1 = clearAppenders (empty_registry :: nat registry);
           (r2, reg2) = getLogger (JString ''push'') reg1;
           (r3, reg3) = getLogger (JString ''push'') reg2
       in r2 = Inl TypeError \<and> r3 = Inr (LoggerRef ''push''))"
proof -
  have "getLogger (JString ''constructor'') (empty_registry :: nat registry)
     = (Inr (Inherited ''constructor''), empty_registry)"
    by (simp add: getLogger_def loggers_get_def empty_registry_def Object_prototype_names_def)
  moreover have "(let reg1 = clearAppenders (empty_registry :: nat registry);
           (r2, reg2) = getLogger (JString ''push'') reg1;
           (r3, reg3) = getLogger (JString ''push'') reg2
       in r2 = Inl TypeError \<and> r3 = Inr (LoggerRef ''push''))"
    by code_simp
  ultimately show ?thesis by simp
qed


end
